theory Spec2Isabelle
  imports Main "HOL-Library.AList"
begin

section \<open>The notes service of \<^verbatim>\<open>src/index.js\<close>\<close>

text \<open>
  The service keeps every note as one file \<^verbatim>\<open>path.join(cache, name + '.txt')\<close> and has
  five routes that touch the file system: \<^verbatim>\<open>POST /write\<close>, \<^verbatim>\<open>GET /notes/:name\<close>,
  \<^verbatim>\<open>PUT /notes/:name\<close>, \<^verbatim>\<open>DELETE /notes/:name\<close> and \<^verbatim>\<open>GET /notes\<close>. Each handler is
  embedded as a function from the cache directory, the request data the handler reads
  (\<^verbatim>\<open>req.params.name\<close>, \<^verbatim>\<open>req.body\<close>) and the file system to the response and the file
  system afterwards.

  What the handlers call in Node (\<^verbatim>\<open>path.join\<close>, \<^verbatim>\<open>path.parse\<close>, \<^verbatim>\<open>fs.*Sync\<close>) and in
  Express (the response for an exception that leaves a handler) is modelled below from the
  documented POSIX behaviour of these libraries. The model has regular files and
  directories; symbolic links, permissions, limits on the length of a name and on the size
  of a body are outside of it. A text is the byte string that is stored in the file (the
  UTF-8 encoding of the JavaScript string).
\<close>

subsection \<open>Paths\<close>

text \<open>
  A location is the list of the components of an absolute path, the root being \<open>[]\<close>. The
  configured directory \<^verbatim>\<open>cache\<close> is given as its location (the option resolved against the
  working directory of the process).
\<close>

type_synonym path = "string list"

text \<open>\<^verbatim>\<open>s.split('/')\<close>: the segments between the separators, empty ones included.\<close>

fun split_sep :: "string \<Rightarrow> string list" where
  "split_sep [] = [[]]"
| "split_sep (c # cs) =
     (let r = split_sep cs
      in if c = CHR ''/'' then [] # r else (c # hd r) # tl r)"

text \<open>
  The segment loop of \<^verbatim>\<open>path.normalize\<close> on an absolute path: an empty segment and \<^verbatim>\<open>.\<close>
  are dropped, \<^verbatim>\<open>..\<close> removes the last component collected so far (none at the root), every
  other segment is appended.
\<close>

fun normalize_segs :: "path \<Rightarrow> string list \<Rightarrow> path" where
  "normalize_segs res [] = res"
| "normalize_segs res (s # ss) =
     (if s = [] \<or> s = ''.'' then normalize_segs res ss
      else if s = ''..'' then normalize_segs (butlast res) ss
      else normalize_segs (res @ [s]) ss)"

text \<open>\<^verbatim>\<open>path.join(cache, s)\<close>: the normal form of \<^verbatim>\<open>cache + '/' + s\<close>.\<close>

definition path_join :: "path \<Rightarrow> string \<Rightarrow> path" where
  "path_join cache s = normalize_segs cache (split_sep s)"

text \<open>\<^verbatim>\<open>file.startsWith(p)\<close>.\<close>

definition startsWith :: "string \<Rightarrow> string \<Rightarrow> bool" where
  "startsWith file p = (take (length p) file = p)"

text \<open>The index of the last occurrence of a character (\<^verbatim>\<open>startDot\<close> in \<^verbatim>\<open>path.parse\<close>).\<close>

fun last_index :: "char \<Rightarrow> string \<Rightarrow> nat option" where
  "last_index c [] = None"
| "last_index c (x # xs) =
     (case last_index c xs of
        Some i \<Rightarrow> Some (Suc i)
      | None \<Rightarrow> if x = c then Some 0 else None)"

text \<open>
  \<^verbatim>\<open>path.parse(file).name\<close> for a file name without separator. There is no extension when
  the name has no dot, when its only dot is its first character, and when the name is
  \<^verbatim>\<open>..\<close>; otherwise the name ends before the last dot.
\<close>

definition parse_name :: "string \<Rightarrow> string" where
  "parse_name file =
     (case last_index CHR ''.'' file of
        None \<Rightarrow> file
      | Some startDot \<Rightarrow>
          if startDot = 0 then file
          else if hd file = CHR ''.'' \<and> startDot = length file - 1 \<and> startDot = 1 then file
          else take startDot file)"

subsection \<open>The file system\<close>

datatype node = File string | Dir

type_synonym filesystem = "(path \<times> node) list"

datatype error =
    ENOENT
  | EISDIR
  | ENOTDIR
  | ERR_INVALID_ARG_VALUE
  | ERR_INVALID_ARG_TYPE
  | TypeError

text \<open>The root is a directory; every other location is looked up in the table.\<close>

definition lookup :: "filesystem \<Rightarrow> path \<Rightarrow> node option" where
  "lookup fs p = (if p = [] then Some Dir else map_of fs p)"

text \<open>Node refuses a path that contains a null byte before it reaches the system.\<close>

definition has_nul :: "path \<Rightarrow> bool" where
  "has_nul p = (\<exists>s \<in> set p. CHR 0x00 \<in> set s)"

text \<open>\<^verbatim>\<open>fs.existsSync\<close>: true for a file and for a directory, false on every error.\<close>

definition existsSync :: "filesystem \<Rightarrow> path \<Rightarrow> bool" where
  "existsSync fs p = (\<not> has_nul p \<and> lookup fs p \<noteq> None)"

text \<open>
  \<^verbatim>\<open>fs.writeFileSync(p, data)\<close>: the data must be a string (\<open>None\<close> stands for a value that is
  not one, which is refused before the file is opened); an existing file is truncated and
  rewritten, a new one is made in an existing directory.
\<close>

definition writeFileSync :: "filesystem \<Rightarrow> path \<Rightarrow> string option \<Rightarrow> error + filesystem" where
  "writeFileSync fs p data =
     (case data of
        None \<Rightarrow> Inl ERR_INVALID_ARG_TYPE
      | Some s \<Rightarrow>
          if has_nul p then Inl ERR_INVALID_ARG_VALUE
          else (case lookup fs p of
                  Some Dir \<Rightarrow> Inl EISDIR
                | Some (File old) \<Rightarrow> Inr (AList.update p (File s) fs)
                | None \<Rightarrow>
                    (case lookup fs (butlast p) of
                       Some Dir \<Rightarrow> Inr (AList.update p (File s) fs)
                     | Some (File other) \<Rightarrow> Inl ENOTDIR
                     | None \<Rightarrow> Inl ENOENT)))"

definition readFileSync :: "filesystem \<Rightarrow> path \<Rightarrow> error + string" where
  "readFileSync fs p =
     (if has_nul p then Inl ERR_INVALID_ARG_VALUE
      else (case lookup fs p of
              None \<Rightarrow> Inl ENOENT
            | Some Dir \<Rightarrow> Inl EISDIR
            | Some (File s) \<Rightarrow> Inr s))"

definition unlinkSync :: "filesystem \<Rightarrow> path \<Rightarrow> error + filesystem" where
  "unlinkSync fs p =
     (if has_nul p then Inl ERR_INVALID_ARG_VALUE
      else (case lookup fs p of
              None \<Rightarrow> Inl ENOENT
            | Some Dir \<Rightarrow> Inl EISDIR
            | Some (File s) \<Rightarrow> Inr (AList.delete p fs)))"

text \<open>The names in a directory, in the order of the table.\<close>

definition entries :: "filesystem \<Rightarrow> path \<Rightarrow> string list" where
  "entries fs d = map (last \<circ> fst) (filter (\<lambda>(q, n). q \<noteq> [] \<and> butlast q = d) fs)"

definition readdirSync :: "filesystem \<Rightarrow> path \<Rightarrow> error + string list" where
  "readdirSync fs d =
     (if has_nul d then Inl ERR_INVALID_ARG_VALUE
      else (case lookup fs d of
              None \<Rightarrow> Inl ENOENT
            | Some (File s) \<Rightarrow> Inl ENOTDIR
            | Some Dir \<Rightarrow> Inr (entries fs d)))"

text \<open>\<^verbatim>\<open>fs.lstatSync(p).isFile()\<close>.\<close>

definition lstatSync_isFile :: "filesystem \<Rightarrow> path \<Rightarrow> error + bool" where
  "lstatSync_isFile fs p =
     (if has_nul p then Inl ERR_INVALID_ARG_VALUE
      else (case lookup fs p of
              None \<Rightarrow> Inl ENOENT
            | Some Dir \<Rightarrow> Inr False
            | Some (File s) \<Rightarrow> Inr True))"

text \<open>
  A component of a location in a real file system is not empty, is neither \<^verbatim>\<open>.\<close> nor
  \<^verbatim>\<open>..\<close>, and has no separator and no null byte.
\<close>

definition valid_seg :: "string \<Rightarrow> bool" where
  "valid_seg s =
     (s \<noteq> [] \<and> s \<noteq> ''.'' \<and> s \<noteq> ''..'' \<and> CHR ''/'' \<notin> set s \<and> CHR 0x00 \<notin> set s)"

text \<open>
  A table is the state of a file system when no location occurs twice, and every entry
  has well-formed components and lies in a directory.
\<close>

definition wf_fs :: "filesystem \<Rightarrow> bool" where
  "wf_fs fs =
     (distinct (map fst fs) \<and>
      (\<forall>(p, n) \<in> set fs. p \<noteq> [] \<and> list_all valid_seg p \<and> lookup fs (butlast p) = Some Dir))"

subsection \<open>Responses\<close>

record note_obj =
  name :: string
  "text" :: string

datatype body = Text string | Json "note_obj list" | ErrorPage error

record response =
  status :: nat
  body :: body

text \<open>\<^verbatim>\<open>res.send(s)\<close> and \<^verbatim>\<open>res.status(c).send(s)\<close>.\<close>

definition send :: "nat \<Rightarrow> string \<Rightarrow> response" where
  "send c s = \<lparr>status = c, body = Text s\<rparr>"

text \<open>\<^verbatim>\<open>res.sendStatus(404)\<close>: the status with its reason phrase as the body.\<close>

definition sendStatus404 :: response where
  "sendStatus404 = \<lparr>status = 404, body = Text ''Not Found''\<rparr>"

text \<open>An exception that leaves a handler is answered by Express with status 500.\<close>

definition uncaught :: "error \<Rightarrow> response" where
  "uncaught e = \<lparr>status = 500, body = ErrorPage e\<rparr>"

subsection \<open>The handlers\<close>

text \<open>
  The handlers are modelled from the point where the middleware has filled \<^verbatim>\<open>req.body\<close>. A
  field of the form is \<open>Some s\<close> when it was sent with the string \<open>s\<close> and \<open>None\<close> when it
  is absent (\<^verbatim>\<open>undefined\<close>); the body of a \<^verbatim>\<open>PUT\<close> is \<open>Some s\<close> when \<^verbatim>\<open>express.text()\<close>
  delivered the string \<open>s\<close> and \<open>None\<close> when \<^verbatim>\<open>req.body\<close> is not a string. In
  \<^verbatim>\<open>note_name + '.txt'\<close> JavaScript turns \<^verbatim>\<open>undefined\<close> into the string \<^verbatim>\<open>undefined\<close>.
\<close>

definition js_string :: "string option \<Rightarrow> string" where
  "js_string v = (case v of None \<Rightarrow> ''undefined'' | Some s \<Rightarrow> s)"

text \<open>\<^verbatim>\<open>const filePath = path.join(cache, name + '.txt')\<close>.\<close>

definition filePath :: "path \<Rightarrow> string \<Rightarrow> path" where
  "filePath cache nm = path_join cache (nm @ ''.txt'')"

text \<open>A name that is one component: no separator, no null byte.\<close>

definition valid_name :: "string \<Rightarrow> bool" where
  "valid_name nm = (CHR ''/'' \<notin> set nm \<and> CHR 0x00 \<notin> set nm)"

text \<open>
  \<^verbatim>\<open>app.post('/write', ...)\<close> from its second line on, for the two fields \<^verbatim>\<open>note_name\<close> and
  \<^verbatim>\<open>note\<close> that the first line has taken from \<^verbatim>\<open>req.body\<close>.
\<close>

definition post_write ::
  "path \<Rightarrow> string option \<Rightarrow> string option \<Rightarrow> filesystem \<Rightarrow> response \<times> filesystem" where
  "post_write cache note_name note fs =
     (let p = filePath cache (js_string note_name)
      in if existsSync fs p then (send 400 ''Note already exists'', fs)
         else (case writeFileSync fs p note of
                 Inl e \<Rightarrow> (uncaught e, fs)
               | Inr fs' \<Rightarrow> (send 201 ''Note created'', fs')))"

text \<open>
  The whole handler of \<^verbatim>\<open>POST /write\<close>, from \<^verbatim>\<open>req.body\<close> on. When no middleware has parsed
  a body, \<^verbatim>\<open>req.body\<close> is \<^verbatim>\<open>undefined\<close> and \<^verbatim>\<open>const { note_name, note } = req.body\<close> throws
  a \<^verbatim>\<open>TypeError\<close> before anything else is done; otherwise the two fields are taken from
  the body, each a string or absent.
\<close>

datatype form_body = Undefined | Form "string option" "string option"

definition post_write_handler ::
  "path \<Rightarrow> form_body \<Rightarrow> filesystem \<Rightarrow> response \<times> filesystem" where
  "post_write_handler cache req_body fs =
     (case req_body of
        Undefined \<Rightarrow> (uncaught TypeError, fs)
      | Form note_name note \<Rightarrow> post_write cache note_name note fs)"

text \<open>\<^verbatim>\<open>app.get('/notes/:name', ...)\<close>.\<close>

definition get_note :: "path \<Rightarrow> string \<Rightarrow> filesystem \<Rightarrow> response \<times> filesystem" where
  "get_note cache nm fs =
     (let p = filePath cache nm
      in if \<not> existsSync fs p then (sendStatus404, fs)
         else (case readFileSync fs p of
                 Inl e \<Rightarrow> (uncaught e, fs)
               | Inr t \<Rightarrow> (send 200 t, fs)))"

text \<open>\<^verbatim>\<open>app.put('/notes/:name', express.text(), ...)\<close>.\<close>

definition put_note ::
  "path \<Rightarrow> string \<Rightarrow> string option \<Rightarrow> filesystem \<Rightarrow> response \<times> filesystem" where
  "put_note cache nm req_body fs =
     (let p = filePath cache nm
      in if \<not> existsSync fs p then (sendStatus404, fs)
         else (case writeFileSync fs p req_body of
                 Inl e \<Rightarrow> (uncaught e, fs)
               | Inr fs' \<Rightarrow> (send 200 ''Note updated'', fs')))"

text \<open>\<^verbatim>\<open>app.delete('/notes/:name', ...)\<close>.\<close>

definition delete_note :: "path \<Rightarrow> string \<Rightarrow> filesystem \<Rightarrow> response \<times> filesystem" where
  "delete_note cache nm fs =
     (let p = filePath cache nm
      in if \<not> existsSync fs p then (sendStatus404, fs)
         else (case unlinkSync fs p of
                 Inl e \<Rightarrow> (uncaught e, fs)
               | Inr fs' \<Rightarrow> (send 200 ''Note deleted'', fs')))"

text \<open>
  The loop of \<^verbatim>\<open>app.get('/notes', ...)\<close> over the names of the directory, \<open>notes\<close> being the
  array built so far. An exception ends the loop.
\<close>

fun collect :: "path \<Rightarrow> filesystem \<Rightarrow> string list \<Rightarrow> note_obj list \<Rightarrow> error + note_obj list" where
  "collect cache fs [] notes = Inr notes"
| "collect cache fs (file # files) notes =
     (let p = path_join cache file
      in case lstatSync_isFile fs p of
           Inl e \<Rightarrow> Inl e
         | Inr isFile \<Rightarrow>
             if isFile \<and> \<not> startsWith file ''.'' \<and> \<not> startsWith file ''_'' then
               (case readFileSync fs p of
                  Inl e \<Rightarrow> Inl e
                | Inr t \<Rightarrow> collect cache fs files (notes @ [\<lparr>name = parse_name file, text = t\<rparr>]))
             else collect cache fs files notes)"

text \<open>\<^verbatim>\<open>app.get('/notes', ...)\<close>: the \<^verbatim>\<open>catch\<close> answers every exception with status 500.\<close>

definition get_notes :: "path \<Rightarrow> filesystem \<Rightarrow> response \<times> filesystem" where
  "get_notes cache fs =
     (case readdirSync fs cache of
        Inl e \<Rightarrow> (send 500 ''Internal Server Error'', fs)
      | Inr files \<Rightarrow>
          (case collect cache fs files [] of
             Inl e \<Rightarrow> (send 500 ''Internal Server Error'', fs)
           | Inr notes \<Rightarrow> (\<lparr>status = 200, body = Json notes\<rparr>, fs)))"

subsection \<open>Vocabulary of the properties\<close>

text \<open>
  The loop of \<^verbatim>\<open>GET /notes\<close> skips a name that starts with a dot or an underscore; such a
  name is called hidden.
\<close>

definition hidden :: "string \<Rightarrow> bool" where
  "hidden f = (startsWith f ''.'' \<or> startsWith f ''_'')"

text \<open>
  What one name \<open>f\<close> of the cache directory contributes to the array of \<^verbatim>\<open>GET /notes\<close>: one
  object when \<open>f\<close> is a regular file that is not hidden, nothing otherwise.
\<close>

definition listed :: "path \<Rightarrow> filesystem \<Rightarrow> string \<Rightarrow> note_obj list" where
  "listed cache fs f =
     (case lookup fs (cache @ [f]) of
        Some (File t) \<Rightarrow> if hidden f then [] else [\<lparr>name = parse_name f, text = t\<rparr>]
      | Some Dir \<Rightarrow> []
      | None \<Rightarrow> [])"

text \<open>The entries of the table at one location.\<close>

definition files_at :: "filesystem \<Rightarrow> path \<Rightarrow> (path \<times> node) list" where
  "files_at fs p = filter (\<lambda>e. fst e = p) fs"

text \<open>A location lies inside a directory when it is strictly below it.\<close>

definition inside :: "path \<Rightarrow> path \<Rightarrow> bool" where
  "inside d p = (length d < length p \<and> take (length d) p = d)"

text \<open>
  Whether the directory segments of a name, read from depth \<open>d\<close> below a directory, meet
  a parent segment \<^verbatim>\<open>..\<close> at depth 0, that is, climb above that directory. Empty segments
  and \<^verbatim>\<open>.\<close> keep the depth, as in \<open>normalize_segs\<close>.
\<close>

fun climbs :: "nat \<Rightarrow> string list \<Rightarrow> bool" where
  "climbs d [] = False"
| "climbs d (s # ss) =
     (if s = [] \<or> s = ''.'' then climbs d ss
      else if s = ''..'' then d = 0 \<or> climbs (d - 1) ss
      else climbs (Suc d) ss)"

text \<open>
  A cache directory with a note, a hidden file, a reserved file, a sub-directory and a
  file with another extension.
\<close>

definition example_fs :: filesystem where
  "example_fs =
     [([''cache''], Dir),
      ([''cache'', ''a.txt''], File ''x''),
      ([''cache'', ''.hidden''], File ''h''),
      ([''cache'', ''_tmp.txt''], File ''u''),
      ([''cache'', ''sub''], Dir),
      ([''cache'', ''a.md''], File ''y'')]"

text \<open>The same directory with one more file, whose name has no dot.\<close>

definition example_fs2 :: filesystem where
  "example_fs2 = example_fs @ [([''cache'', ''noext''], File ''n'')]"

section \<open>Properties\<close>

subsection \<open>Paths and the table\<close>

lemma split_sep_no_sep: "CHR ''/'' \<notin> set s \<Longrightarrow> split_sep s = [s]"
  by (induction s) (auto simp: Let_def)

lemma filePath_valid: "CHR ''/'' \<notin> set nm \<Longrightarrow> filePath cache nm = cache @ [nm @ ''.txt'']"
  by (simp add: filePath_def path_join_def split_sep_no_sep)

lemma lookup_update:
  "p \<noteq> [] \<Longrightarrow> lookup (AList.update p v fs) q = (if q = p then Some v else lookup fs q)"
  by (simp add: lookup_def update_conv')

lemma lookup_delete:
  "p \<noteq> [] \<Longrightarrow> lookup (AList.delete p fs) q = (if q = p then None else lookup fs q)"
  by (simp add: lookup_def delete_conv')

lemma wf_fs_entry:
  assumes "wf_fs fs" "lookup fs p = Some x" "p \<noteq> []"
  shows "list_all valid_seg p \<and> lookup fs (butlast p) = Some Dir"
proof -
  from assms(2,3) have "(p, x) \<in> set fs"
    by (simp add: lookup_def map_of_SomeD)
  with assms(1) show ?thesis
    unfolding wf_fs_def by blast
qed

lemma valid_seg_no_nul: "list_all valid_seg p \<Longrightarrow> \<not> has_nul p"
  by (auto simp: has_nul_def valid_seg_def list_all_iff)

lemma wf_fs_no_nul: "wf_fs fs \<Longrightarrow> lookup fs p = Some x \<Longrightarrow> \<not> has_nul p"
proof (cases "p = []")
  case True
  then show ?thesis by (simp add: has_nul_def)
next
  case False
  assume "wf_fs fs" "lookup fs p = Some x"
  with False have "list_all valid_seg p" by (simp add: wf_fs_entry)
  then show ?thesis by (rule valid_seg_no_nul)
qed

lemma has_nul_filePath:
  "valid_name nm \<Longrightarrow> has_nul (filePath cache nm) = has_nul cache"
  by (auto simp: valid_name_def filePath_valid has_nul_def)

lemma split_sep_nonempty: "split_sep s \<noteq> []"
  by (induction s) (auto simp: Let_def)

lemma split_sep_segments: "x \<in> set (split_sep s) \<Longrightarrow> CHR ''/'' \<notin> set x"
proof (induction s arbitrary: x)
  case Nil
  then show ?case by simp
next
  case (Cons c cs)
  obtain h r where r: "split_sep cs = h # r"
    using split_sep_nonempty [of cs] by (cases "split_sep cs") auto
  with Cons show ?case
    by (auto simp: Let_def split: if_splits)
qed

lemma split_sep_append:
  "CHR ''/'' \<notin> set sfx \<Longrightarrow>
   split_sep (s @ sfx) = butlast (split_sep s) @ [last (split_sep s) @ sfx]"
proof (induction s)
  case Nil
  then show ?case by (simp add: split_sep_no_sep)
next
  case (Cons c cs)
  obtain h r where r: "split_sep cs = h # r"
    using split_sep_nonempty [of cs] by (cases "split_sep cs") auto
  with Cons show ?case
    by (cases r) (auto simp: Let_def)
qed

lemma normalize_segs_append:
  "normalize_segs res (xs @ ys) = normalize_segs (normalize_segs res xs) ys"
  by (induction xs arbitrary: res) auto

lemma filePath_last:
  "filePath cache nm =
     normalize_segs cache (butlast (split_sep nm)) @ [last (split_sep nm) @ ''.txt'']"
  by (simp add: filePath_def path_join_def split_sep_append normalize_segs_append)

lemma filePath_not_root: "filePath cache nm \<noteq> []"
  by (simp add: filePath_last)

lemma last_filePath_valid:
  "\<not> has_nul (filePath cache nm) \<Longrightarrow> valid_seg (last (filePath cache nm))"
proof -
  assume n: "\<not> has_nul (filePath cache nm)"
  have "last (split_sep nm) \<in> set (split_sep nm)"
    by (simp add: split_sep_nonempty)
  then have "CHR ''/'' \<notin> set (last (split_sep nm))"
    by (rule split_sep_segments)
  moreover from n have "CHR 0x00 \<notin> set (last (split_sep nm) @ ''.txt'')"
    unfolding filePath_last has_nul_def by auto
  ultimately show ?thesis
    by (simp add: filePath_last valid_seg_def)
qed

subsection \<open>Create and read\<close>

text \<open>
  C1. In a file system where the cache directory exists and nothing is stored for the
  valid name \<open>nm\<close>, \<^verbatim>\<open>POST /write\<close> with the name \<open>nm\<close> and the text \<open>t\<close> answers 201 and
  writes the file, and \<^verbatim>\<open>GET /notes/nm\<close> on the result answers 200 with exactly \<open>t\<close>.
\<close>

theorem create_read_roundtrip:
  assumes wf: "wf_fs fs"
    and cache: "lookup fs cache = Some Dir"
    and nm: "valid_name nm"
    and absent: "lookup fs (filePath cache nm) = None"
  shows "post_write cache (Some nm) (Some t) fs =
           (\<lparr>status = 201, body = Text ''Note created''\<rparr>,
            AList.update (filePath cache nm) (File t) fs)
         \<and> get_note cache nm (AList.update (filePath cache nm) (File t) fs) =
           (\<lparr>status = 200, body = Text t\<rparr>, AList.update (filePath cache nm) (File t) fs)"
proof -
  have p: "filePath cache nm = cache @ [nm @ ''.txt'']"
    using nm by (simp add: valid_name_def filePath_valid)
  have nonul: "\<not> has_nul (filePath cache nm)"
    using wf cache nm by (simp add: has_nul_filePath wf_fs_no_nul)
  have w: "writeFileSync fs (filePath cache nm) (Some t) =
             Inr (AList.update (filePath cache nm) (File t) fs)"
    using absent nonul cache by (simp add: writeFileSync_def p)
  have "post_write cache (Some nm) (Some t) fs =
          (send 201 ''Note created'', AList.update (filePath cache nm) (File t) fs)"
    using absent w by (simp add: post_write_def js_string_def existsSync_def)
  moreover have "get_note cache nm (AList.update (filePath cache nm) (File t) fs) =
          (send 200 t, AList.update (filePath cache nm) (File t) fs)"
    using nonul by (simp add: get_note_def existsSync_def readFileSync_def lookup_update p)
  ultimately show ?thesis by (simp add: send_def)
qed

theorem create_read_roundtrip_witness:
  "wf_fs [([''cache''], Dir)]
   \<and> lookup [([''cache''], Dir)] [''cache''] = Some Dir
   \<and> valid_name ''foo''
   \<and> lookup [([''cache''], Dir)] (filePath [''cache''] ''foo'') = None
   \<and> post_write [''cache''] (Some ''foo'') (Some ''hello'') [([''cache''], Dir)] =
       (\<lparr>status = 201, body = Text ''Note created''\<rparr>,
        [([''cache''], Dir), ([''cache'', ''foo.txt''], File ''hello'')])
   \<and> get_note [''cache''] ''foo''
         [([''cache''], Dir), ([''cache'', ''foo.txt''], File ''hello'')] =
       (\<lparr>status = 200, body = Text ''hello''\<rparr>,
        [([''cache''], Dir), ([''cache'', ''foo.txt''], File ''hello'')])"
proof -
  have h1: "wf_fs [([''cache''], Dir)]"
    by (simp add: wf_fs_def valid_seg_def lookup_def)
  have h2: "lookup [([''cache''], Dir)] [''cache''] = Some Dir"
    by (simp add: lookup_def)
  have h3: "valid_name ''foo''"
    by (simp add: valid_name_def)
  have p: "filePath [''cache''] ''foo'' = [''cache'', ''foo.txt'']"
    by (simp add: filePath_def path_join_def)
  have h4: "lookup [([''cache''], Dir)] (filePath [''cache''] ''foo'') = None"
    by (simp add: p lookup_def)
  show ?thesis
    using h1 h2 h3 h4 create_read_roundtrip [OF h1 h2 h3 h4, of "''hello''"]
    by (simp add: p)
qed

text \<open>The definitions that a concrete request is evaluated with.\<close>

lemmas eval_defs =
  post_write_def get_note_def put_note_def delete_note_def get_notes_def
  filePath_def path_join_def js_string_def existsSync_def has_nul_def lookup_def
  writeFileSync_def readFileSync_def unlinkSync_def readdirSync_def lstatSync_isFile_def
  entries_def startsWith_def parse_name_def send_def sendStatus404_def uncaught_def

lemma writeFileSync_Inr:
  assumes "writeFileSync fs p v = Inr fs'"
  shows "\<exists>t. v = Some t \<and> \<not> has_nul p \<and> p \<noteq> [] \<and> fs' = AList.update p (File t) fs"
  using assms
  by (auto simp: writeFileSync_def lookup_def split: option.splits if_splits node.splits)

lemma post_write_created:
  assumes "post_write cache v (Some t) fs = (r, fs')" "status r = 201"
  shows "\<not> has_nul (filePath cache (js_string v)) \<and> filePath cache (js_string v) \<noteq> []
         \<and> fs' = AList.update (filePath cache (js_string v)) (File t) fs
         \<and> lookup fs (filePath cache (js_string v)) = None"
proof -
  let ?p = "filePath cache (js_string v)"
  from assms have ex: "\<not> existsSync fs ?p"
    by (auto simp: post_write_def Let_def send_def split: if_splits)
  with assms obtain fs'' where w: "writeFileSync fs ?p (Some t) = Inr fs''"
    by (cases "writeFileSync fs ?p (Some t)") (auto simp: post_write_def Let_def uncaught_def)
  with assms ex have "fs' = fs''"
    by (simp add: post_write_def Let_def)
  with writeFileSync_Inr [OF w] ex show ?thesis
    by (auto simp: existsSync_def)
qed

text \<open>
  C2. After a \<^verbatim>\<open>POST /write\<close> for the name \<open>nm\<close> with text \<open>t\<close> that answered 201, a second
  \<^verbatim>\<open>POST /write\<close> for \<open>nm\<close> with any text \<open>t2\<close> answers 400 and leaves the file system as it
  is, and \<^verbatim>\<open>GET /notes/nm\<close> still answers exactly \<open>t\<close>: nothing is merged or appended.
\<close>

theorem create_twice_already_exists:
  assumes "post_write cache (Some nm) (Some t) fs = (r, fs')" and "status r = 201"
  shows "post_write cache (Some nm) (Some t2) fs' =
           (\<lparr>status = 400, body = Text ''Note already exists''\<rparr>, fs')
         \<and> get_note cache nm fs' = (\<lparr>status = 200, body = Text t\<rparr>, fs')"
proof -
  let ?p = "filePath cache nm"
  from post_write_created [OF assms]
  have nonul: "\<not> has_nul ?p" and ne: "?p \<noteq> []" and fs': "fs' = AList.update ?p (File t) fs"
    by (simp_all add: js_string_def)
  have l: "lookup fs' ?p = Some (File t)"
    using ne fs' by (simp add: lookup_update)
  show ?thesis
    using l nonul
    by (simp add: post_write_def get_note_def js_string_def existsSync_def readFileSync_def
        send_def)
qed

theorem create_twice_already_exists_witness:
  "post_write [''cache''] (Some ''dup'') (Some ''a'') [([''cache''], Dir)] =
     (\<lparr>status = 201, body = Text ''Note created''\<rparr>,
      [([''cache''], Dir), ([''cache'', ''dup.txt''], File ''a'')])
   \<and> status \<lparr>status = 201, body = Text ''Note created''\<rparr> = 201
   \<and> post_write [''cache''] (Some ''dup'') (Some ''b'')
        [([''cache''], Dir), ([''cache'', ''dup.txt''], File ''a'')] =
     (\<lparr>status = 400, body = Text ''Note already exists''\<rparr>,
      [([''cache''], Dir), ([''cache'', ''dup.txt''], File ''a'')])
   \<and> get_note [''cache''] ''dup'' [([''cache''], Dir), ([''cache'', ''dup.txt''], File ''a'')] =
     (\<lparr>status = 200, body = Text ''a''\<rparr>,
      [([''cache''], Dir), ([''cache'', ''dup.txt''], File ''a'')])"
proof -
  have h1: "post_write [''cache''] (Some ''dup'') (Some ''a'') [([''cache''], Dir)] =
     (\<lparr>status = 201, body = Text ''Note created''\<rparr>,
      [([''cache''], Dir), ([''cache'', ''dup.txt''], File ''a'')])"
    by (simp add: eval_defs)
  have h2: "status \<lparr>status = 201, body = Text ''Note created''\<rparr> = 201"
    by simp
  show ?thesis
    using h1 create_twice_already_exists [OF h1 h2, of "''b''"] by simp
qed

subsection \<open>Update\<close>

text \<open>
  C3. When the file of the name \<open>nm\<close> holds the text \<open>t\<close>, \<^verbatim>\<open>PUT /notes/nm\<close> with the body
  \<open>t2\<close> answers 200 and stores \<open>t2\<close> in place of \<open>t\<close>: \<^verbatim>\<open>GET /notes/nm\<close> then answers exactly
  \<open>t2\<close>, which is neither \<open>t\<close> followed by \<open>t2\<close> nor \<open>t2\<close> followed by \<open>t\<close> unless \<open>t\<close> is empty.
\<close>

theorem update_replaces:
  assumes "readFileSync fs (filePath cache nm) = Inr t"
  shows "put_note cache nm (Some t2) fs =
           (\<lparr>status = 200, body = Text ''Note updated''\<rparr>,
            AList.update (filePath cache nm) (File t2) fs)
         \<and> get_note cache nm (AList.update (filePath cache nm) (File t2) fs) =
           (\<lparr>status = 200, body = Text t2\<rparr>, AList.update (filePath cache nm) (File t2) fs)
         \<and> (t \<noteq> [] \<longrightarrow>
              fst (get_note cache nm (AList.update (filePath cache nm) (File t2) fs)) \<noteq>
                \<lparr>status = 200, body = Text (t @ t2)\<rparr>
            \<and> fst (get_note cache nm (AList.update (filePath cache nm) (File t2) fs)) \<noteq>
                \<lparr>status = 200, body = Text (t2 @ t)\<rparr>)"
proof -
  let ?p = "filePath cache nm"
  from assms have nonul: "\<not> has_nul ?p" and l: "lookup fs ?p = Some (File t)"
    by (auto simp: readFileSync_def split: if_splits option.splits node.splits)
  have ne: "?p \<noteq> []"
    using l by (auto simp: lookup_def)
  have put: "put_note cache nm (Some t2) fs =
           (\<lparr>status = 200, body = Text ''Note updated''\<rparr>, AList.update ?p (File t2) fs)"
    using nonul l by (simp add: put_note_def existsSync_def writeFileSync_def send_def)
  have get: "get_note cache nm (AList.update ?p (File t2) fs) =
           (\<lparr>status = 200, body = Text t2\<rparr>, AList.update ?p (File t2) fs)"
    using nonul ne by (simp add: get_note_def existsSync_def readFileSync_def lookup_update send_def)
  show ?thesis
    using put get by simp
qed

theorem update_replaces_witness:
  "readFileSync [([''cache''], Dir), ([''cache'', ''foo.txt''], File ''hello'')]
     (filePath [''cache''] ''foo'') = Inr ''hello''
   \<and> put_note [''cache''] ''foo'' (Some ''world'')
        [([''cache''], Dir), ([''cache'', ''foo.txt''], File ''hello'')] =
     (\<lparr>status = 200, body = Text ''Note updated''\<rparr>,
      [([''cache''], Dir), ([''cache'', ''foo.txt''], File ''world'')])
   \<and> get_note [''cache''] ''foo''
        [([''cache''], Dir), ([''cache'', ''foo.txt''], File ''world'')] =
     (\<lparr>status = 200, body = Text ''world''\<rparr>,
      [([''cache''], Dir), ([''cache'', ''foo.txt''], File ''world'')])"
proof -
  have p: "filePath [''cache''] ''foo'' = [''cache'', ''foo.txt'']"
    by (simp add: filePath_def path_join_def)
  have h: "readFileSync [([''cache''], Dir), ([''cache'', ''foo.txt''], File ''hello'')]
     (filePath [''cache''] ''foo'') = Inr ''hello''"
    by (simp add: p readFileSync_def has_nul_def lookup_def)
  show ?thesis
    using h update_replaces [OF h, of "''world''"] by (simp add: p)
qed

subsection \<open>Missing notes\<close>

text \<open>
  C4. When nothing exists at the path of the name \<open>nm\<close> (the test the handlers make), each
  of \<^verbatim>\<open>GET\<close>, \<^verbatim>\<open>PUT\<close> and \<^verbatim>\<open>DELETE /notes/nm\<close> answers 404 and returns the file system unchanged (a failed update
  makes no file). After a \<^verbatim>\<open>DELETE /notes/nm2\<close> that answered 200, \<^verbatim>\<open>GET /notes/nm2\<close> answers
  404 and so does a second \<^verbatim>\<open>DELETE /notes/nm2\<close>.
\<close>

theorem not_found:
  "(\<not> existsSync fs (filePath cache nm) \<longrightarrow>
      get_note cache nm fs = (\<lparr>status = 404, body = Text ''Not Found''\<rparr>, fs)
    \<and> put_note cache nm req_body fs = (\<lparr>status = 404, body = Text ''Not Found''\<rparr>, fs)
    \<and> delete_note cache nm fs = (\<lparr>status = 404, body = Text ''Not Found''\<rparr>, fs))
   \<and> (delete_note cache nm2 fs2 = (r, fs2') \<and> status r = 200 \<longrightarrow>
      get_note cache nm2 fs2' = (\<lparr>status = 404, body = Text ''Not Found''\<rparr>, fs2')
    \<and> delete_note cache nm2 fs2' = (\<lparr>status = 404, body = Text ''Not Found''\<rparr>, fs2'))"
proof (intro conjI impI)
  assume ex: "\<not> existsSync fs (filePath cache nm)"
  show "get_note cache nm fs = (\<lparr>status = 404, body = Text ''Not Found''\<rparr>, fs)"
    using ex by (simp add: get_note_def sendStatus404_def)
  show "put_note cache nm req_body fs = (\<lparr>status = 404, body = Text ''Not Found''\<rparr>, fs)"
    using ex by (simp add: put_note_def sendStatus404_def)
  show "delete_note cache nm fs = (\<lparr>status = 404, body = Text ''Not Found''\<rparr>, fs)"
    using ex by (simp add: delete_note_def sendStatus404_def)
next
  let ?p = "filePath cache nm2"
  assume a: "delete_note cache nm2 fs2 = (r, fs2') \<and> status r = 200"
  then have "fs2' = AList.delete ?p fs2 \<and> ?p \<noteq> []"
    by (auto simp: delete_note_def Let_def unlinkSync_def sendStatus404_def uncaught_def
        lookup_def split: if_splits option.splits node.splits)
  then have "lookup fs2' ?p = None"
    by (simp add: lookup_delete)
  then have ex: "\<not> existsSync fs2' ?p"
    by (simp add: existsSync_def)
  show "get_note cache nm2 fs2' = (\<lparr>status = 404, body = Text ''Not Found''\<rparr>, fs2')"
    using ex by (simp add: get_note_def sendStatus404_def)
  show "delete_note cache nm2 fs2' = (\<lparr>status = 404, body = Text ''Not Found''\<rparr>, fs2')"
    using ex by (simp add: delete_note_def sendStatus404_def)
qed

theorem not_found_witness:
  "\<not> existsSync [([''cache''], Dir)] (filePath [''cache''] ''foo'')
   \<and> get_note [''cache''] ''foo'' [([''cache''], Dir)] =
       (\<lparr>status = 404, body = Text ''Not Found''\<rparr>, [([''cache''], Dir)])
   \<and> put_note [''cache''] ''foo'' (Some ''world'') [([''cache''], Dir)] =
       (\<lparr>status = 404, body = Text ''Not Found''\<rparr>, [([''cache''], Dir)])
   \<and> delete_note [''cache''] ''foo'' [([''cache''], Dir)] =
       (\<lparr>status = 404, body = Text ''Not Found''\<rparr>, [([''cache''], Dir)])
   \<and> delete_note [''cache''] ''foo''
        [([''cache''], Dir), ([''cache'', ''foo.txt''], File ''hello'')] =
       (\<lparr>status = 200, body = Text ''Note deleted''\<rparr>, [([''cache''], Dir)])"
proof -
  have p: "filePath [''cache''] ''foo'' = [''cache'', ''foo.txt'']"
    by (simp add: filePath_def path_join_def)
  have h1: "\<not> existsSync [([''cache''], Dir)] (filePath [''cache''] ''foo'')"
    by (simp add: p existsSync_def lookup_def)
  have h2: "delete_note [''cache''] ''foo''
        [([''cache''], Dir), ([''cache'', ''foo.txt''], File ''hello'')] =
       (\<lparr>status = 200, body = Text ''Note deleted''\<rparr>, [([''cache''], Dir)])
     \<and> status \<lparr>status = 200, body = Text ''Note deleted''\<rparr> = 200"
    by (simp add: eval_defs)
  show ?thesis
    using h1 h2
      not_found [of "[([''cache''], Dir)]" "[''cache'']" "''foo''" "Some ''world''" "''foo''"
        "[([''cache''], Dir), ([''cache'', ''foo.txt''], File ''hello'')]"
        "\<lparr>status = 200, body = Text ''Note deleted''\<rparr>" "[([''cache''], Dir)]"]
    by simp
qed

subsection \<open>The list of notes\<close>

lemma path_join_valid_seg: "valid_seg f \<Longrightarrow> path_join cache f = cache @ [f]"
  by (simp add: path_join_def valid_seg_def split_sep_no_sep)

lemma entries_iff:
  "f \<in> set (entries fs d) \<longleftrightarrow> (\<exists>n. (d @ [f], n) \<in> set fs)"
proof
  assume "f \<in> set (entries fs d)"
  then obtain q n where q: "(q, n) \<in> set fs" "q \<noteq> []" "butlast q = d" "f = last q"
    by (auto simp: entries_def)
  then have "q = d @ [f]"
    by (metis append_butlast_last_id)
  with q(1) show "\<exists>n. (d @ [f], n) \<in> set fs" by blast
next
  assume "\<exists>n. (d @ [f], n) \<in> set fs"
  then obtain n where "(d @ [f], n) \<in> set fs" ..
  then have "(d @ [f], n) \<in> set (filter (\<lambda>(q, n). q \<noteq> [] \<and> butlast q = d) fs)"
    by simp
  then have "(last \<circ> fst) (d @ [f], n) \<in> set (entries fs d)"
    unfolding entries_def set_map by (rule imageI)
  then show "f \<in> set (entries fs d)" by simp
qed

lemma wf_fs_entries:
  assumes "wf_fs fs" "f \<in> set (entries fs d)"
  shows "valid_seg f \<and> (\<exists>n. lookup fs (d @ [f]) = Some n)"
proof -
  from assms(2) obtain n where n: "(d @ [f], n) \<in> set fs"
    by (auto simp: entries_iff)
  with assms(1) have "list_all valid_seg (d @ [f])" and "map_of fs (d @ [f]) = Some n"
    by (auto simp: wf_fs_def)
  then show ?thesis by (simp add: lookup_def)
qed

lemma entries_lookup: "lookup fs (d @ [f]) = Some n \<Longrightarrow> f \<in> set (entries fs d)"
  by (auto simp: entries_iff lookup_def dest: map_of_SomeD)

lemma collect_listed:
  assumes "\<not> has_nul cache"
    and "\<forall>f \<in> set files. valid_seg f \<and> (\<exists>n. lookup fs (cache @ [f]) = Some n)"
  shows "collect cache fs files acc = Inr (acc @ concat (map (listed cache fs) files))"
  using assms(2)
proof (induction files arbitrary: acc)
  case Nil
  then show ?case by simp
next
  case (Cons f files)
  then have f: "valid_seg f" and ex: "\<exists>n. lookup fs (cache @ [f]) = Some n"
    and rest: "\<forall>f \<in> set files. valid_seg f \<and> (\<exists>n. lookup fs (cache @ [f]) = Some n)"
    by simp_all
  have p: "path_join cache f = cache @ [f]"
    using f by (rule path_join_valid_seg)
  have nonul: "\<not> has_nul (cache @ [f])"
    using assms(1) f by (auto simp: has_nul_def valid_seg_def)
  from ex obtain n where n: "lookup fs (cache @ [f]) = Some n" ..
  show ?case
  proof (cases n)
    case (File t)
    then show ?thesis
      using n nonul Cons.IH [OF rest]
      by (simp add: p lstatSync_isFile_def readFileSync_def listed_def hidden_def)
  next
    case Dir
    then show ?thesis
      using n nonul Cons.IH [OF rest]
      by (simp add: p lstatSync_isFile_def listed_def)
  qed
qed

lemma get_notes_listed:
  assumes wf: "wf_fs fs" and cache: "lookup fs cache = Some Dir"
  shows "get_notes cache fs =
           (\<lparr>status = 200, body = Json (concat (map (listed cache fs) (entries fs cache)))\<rparr>, fs)"
proof -
  have nonul: "\<not> has_nul cache"
    using wf cache by (rule wf_fs_no_nul)
  have "collect cache fs (entries fs cache) [] =
          Inr ([] @ concat (map (listed cache fs) (entries fs cache)))"
    using nonul wf by (intro collect_listed) (auto dest: wf_fs_entries)
  then show ?thesis
    using nonul cache by (simp add: get_notes_def readdirSync_def)
qed

lemma set_listed:
  "x \<in> set (concat (map (listed cache fs) (entries fs cache))) \<longleftrightarrow>
     (\<exists>file t. lookup fs (cache @ [file]) = Some (File t) \<and> \<not> hidden file
        \<and> x = \<lparr>name = parse_name file, text = t\<rparr>)"
  by (auto simp: listed_def split: option.splits node.splits if_splits dest: entries_lookup)

lemma parse_name_not_hidden: "f \<noteq> [] \<Longrightarrow> \<not> hidden f \<Longrightarrow> \<not> hidden (parse_name f)"
  by (cases f)
    (auto simp: parse_name_def hidden_def startsWith_def split: option.splits)

lemma last_index_dot_ext:
  "c \<notin> set ext \<Longrightarrow> last_index c (base @ c # ext) = Some (length base)"
proof (induction base)
  case Nil
  then have "last_index c ext = None"
    by (induction ext) (auto split: option.splits)
  then show ?case by simp
next
  case (Cons a base)
  then show ?case by simp
qed

lemma parse_name_ext:
  assumes "base \<noteq> []" "hd base \<noteq> CHR ''.''" "CHR ''.'' \<notin> set ext"
  shows "parse_name (base @ ''.'' @ ext) = base"
  using assms by (simp add: parse_name_def last_index_dot_ext)

text \<open>
  C5. In a file system where the cache directory exists, \<^verbatim>\<open>GET /notes\<close> answers 200 with a
  finite array that has an object \<open>{name, text}\<close> for every regular file of the cache
  directory whose name starts with neither a dot nor an underscore, and nothing else: every
  object of the array comes from such a file, and no name in the array starts with a dot or
  an underscore. For an empty cache directory the array is empty.
\<close>

theorem list_notes:
  assumes wf: "wf_fs fs" and cache: "lookup fs cache = Some Dir"
  shows "\<exists>notes.
           get_notes cache fs = (\<lparr>status = 200, body = Json notes\<rparr>, fs)
         \<and> (\<forall>f t. lookup fs (cache @ [f]) = Some (File t) \<and> \<not> hidden f \<longrightarrow>
                \<lparr>name = parse_name f, text = t\<rparr> \<in> set notes)
         \<and> (\<forall>x \<in> set notes. \<exists>f t. lookup fs (cache @ [f]) = Some (File t) \<and> \<not> hidden f
                \<and> x = \<lparr>name = parse_name f, text = t\<rparr>)
         \<and> (\<forall>x \<in> set notes. \<not> hidden (name x))
         \<and> (entries fs cache = [] \<longrightarrow> notes = [])"
proof -
  let ?notes = "concat (map (listed cache fs) (entries fs cache))"
  have g: "get_notes cache fs = (\<lparr>status = 200, body = Json ?notes\<rparr>, fs)"
    using wf cache by (rule get_notes_listed)
  have incl: "\<forall>f t. lookup fs (cache @ [f]) = Some (File t) \<and> \<not> hidden f \<longrightarrow>
                \<lparr>name = parse_name f, text = t\<rparr> \<in> set ?notes"
    unfolding set_listed by blast
  have only: "\<forall>x \<in> set ?notes. \<exists>f t. lookup fs (cache @ [f]) = Some (File t) \<and> \<not> hidden f
                \<and> x = \<lparr>name = parse_name f, text = t\<rparr>"
    using set_listed [of _ cache fs] by blast
  have nh: "\<forall>x \<in> set ?notes. \<not> hidden (name x)"
  proof
    fix x assume "x \<in> set ?notes"
    with only obtain f t where f: "lookup fs (cache @ [f]) = Some (File t)" "\<not> hidden f"
      "x = \<lparr>name = parse_name f, text = t\<rparr>" by blast
    from wf_fs_entry [OF wf f(1)] have "list_all valid_seg (cache @ [f])"
      by simp
    then have "f \<noteq> []" by (auto simp: valid_seg_def)
    with f(2,3) show "\<not> hidden (name x)"
      by (simp add: parse_name_not_hidden)
  qed
  have emp: "entries fs cache = [] \<longrightarrow> ?notes = []"
    by simp
  from g incl only nh emp show ?thesis by blast
qed

theorem list_notes_witness:
  "wf_fs example_fs
   \<and> lookup example_fs [''cache''] = Some Dir
   \<and> get_notes [''cache''] example_fs =
       (\<lparr>status = 200,
          body = Json [\<lparr>name = ''a'', text = ''x''\<rparr>, \<lparr>name = ''a'', text = ''y''\<rparr>]\<rparr>,
        example_fs)
   \<and> get_notes [''cache''] [([''cache''], Dir)] =
       (\<lparr>status = 200, body = Json []\<rparr>, [([''cache''], Dir)])"
proof -
  have h1: "wf_fs example_fs"
    by (simp add: example_fs_def wf_fs_def valid_seg_def lookup_def)
  have h2: "lookup example_fs [''cache''] = Some Dir"
    by (simp add: example_fs_def lookup_def)
  have e1: "get_notes [''cache''] example_fs =
       (\<lparr>status = 200,
          body = Json [\<lparr>name = ''a'', text = ''x''\<rparr>, \<lparr>name = ''a'', text = ''y''\<rparr>]\<rparr>,
        example_fs)"
    by (simp add: example_fs_def eval_defs)
  have e2: "get_notes [''cache''] [([''cache''], Dir)] =
       (\<lparr>status = 200, body = Json []\<rparr>, [([''cache''], Dir)])"
    by (simp add: eval_defs)
  from list_notes [OF h1 h2] obtain ns where
    "get_notes [''cache''] example_fs = (\<lparr>status = 200, body = Json ns\<rparr>, example_fs)"
    by blast
  with h1 h2 e1 e2 show ?thesis by simp
qed

lemma filePath_other_extension:
  assumes "CHR ''.'' \<notin> set ext" "ext \<noteq> ''txt''"
  shows "filePath cache nm \<noteq> d @ [base @ ''.'' @ ext]"
proof
  assume "filePath cache nm = d @ [base @ ''.'' @ ext]"
  then have "last (filePath cache nm) = base @ ''.'' @ ext"
    by simp
  then have e: "last (split_sep nm) @ ''.txt'' = base @ ''.'' @ ext"
    by (simp add: filePath_last)
  have "last_index CHR ''.'' (last (split_sep nm) @ CHR ''.'' # ''txt'') =
          Some (length (last (split_sep nm)))"
    by (rule last_index_dot_ext) simp
  moreover have "last_index CHR ''.'' (base @ CHR ''.'' # ext) = Some (length base)"
    using assms(1) by (rule last_index_dot_ext)
  ultimately have "length (last (split_sep nm)) = length base"
    using e by simp
  with e have "ext = ''txt''" by simp
  with assms(2) show False by simp
qed

lemma last_index_None: "c \<notin> set s \<Longrightarrow> last_index c s = None"
  by (induction s) (auto split: option.splits)

lemma parse_name_no_dot: "CHR ''.'' \<notin> set f \<Longrightarrow> parse_name f = f"
  by (simp add: parse_name_def last_index_None)

lemma filePath_ends_txt: "filePath cache nm = d @ [f] \<Longrightarrow> \<exists>b. f = b @ ''.txt''"
proof -
  assume "filePath cache nm = d @ [f]"
  then have "last (filePath cache nm) = f" by simp
  then have "f = last (split_sep nm) @ ''.txt''"
    by (simp add: filePath_last)
  then show ?thesis ..
qed

text \<open>
  C9. \<^verbatim>\<open>GET /notes\<close> is not restricted to \<^verbatim>\<open>.txt\<close>. Every regular file \<open>f\<close> of the cache
  directory that is not hidden is listed under its name without the final extension,
  whatever that extension is: under \<open>f\<close> itself when \<open>f\<close> has no dot, and under \<open>base\<close> when
  \<open>f\<close> is \<open>base.ext\<close> and \<open>ext\<close> has no dot. So \<^verbatim>\<open>a.txt\<close> and \<^verbatim>\<open>a.md\<close> are both listed under the
  name \<^verbatim>\<open>a\<close>. Create, read, update and delete address paths that end in \<^verbatim>\<open>.txt\<close> only: when
  \<open>f\<close> does not end in \<^verbatim>\<open>.txt\<close> (so when \<open>ext\<close> is not \<^verbatim>\<open>txt\<close>), no name gives the path of \<open>f\<close>.
\<close>

theorem listed_name:
  assumes wf: "wf_fs fs" and cache: "lookup fs cache = Some Dir"
    and f: "lookup fs (cache @ [f]) = Some (File t)"
    and nh: "\<not> hidden f"
  shows "(\<exists>ns.
            get_notes cache fs = (\<lparr>status = 200, body = Json ns\<rparr>, fs)
          \<and> (CHR ''.'' \<notin> set f \<longrightarrow> \<lparr>name = f, text = t\<rparr> \<in> set ns)
          \<and> (\<forall>base ext. f = base @ ''.'' @ ext \<and> CHR ''.'' \<notin> set ext \<longrightarrow>
                \<lparr>name = base, text = t\<rparr> \<in> set ns))
         \<and> ((\<forall>b. f \<noteq> b @ ''.txt'') \<longrightarrow> (\<forall>nm. filePath cache nm \<noteq> cache @ [f]))
         \<and> (\<forall>base ext. f = base @ ''.'' @ ext \<and> CHR ''.'' \<notin> set ext \<and> ext \<noteq> ''txt'' \<longrightarrow>
               (\<forall>nm. filePath cache nm \<noteq> cache @ [f]))"
proof -
  let ?notes = "concat (map (listed cache fs) (entries fs cache))"
  have g: "get_notes cache fs = (\<lparr>status = 200, body = Json ?notes\<rparr>, fs)"
    using wf cache by (rule get_notes_listed)
  have m: "\<lparr>name = parse_name f, text = t\<rparr> \<in> set ?notes"
    using f nh unfolding set_listed by blast
  have nodot: "CHR ''.'' \<notin> set f \<longrightarrow> \<lparr>name = f, text = t\<rparr> \<in> set ?notes"
    using m by (auto simp: parse_name_no_dot)
  have dot: "\<lparr>name = base, text = t\<rparr> \<in> set ?notes"
    if "f = base @ ''.'' @ ext \<and> CHR ''.'' \<notin> set ext" for base ext
  proof -
    from that nh have b: "base \<noteq> []" "hd base \<noteq> CHR ''.''"
      by (cases base; simp add: hidden_def startsWith_def)+
    from that have "CHR ''.'' \<notin> set ext" by simp
    with b have "parse_name (base @ ''.'' @ ext) = base"
      by (rule parse_name_ext)
    with that have "parse_name f = base" by simp
    with m show ?thesis by simp
  qed
  have l: "\<exists>ns.
            get_notes cache fs = (\<lparr>status = 200, body = Json ns\<rparr>, fs)
          \<and> (CHR ''.'' \<notin> set f \<longrightarrow> \<lparr>name = f, text = t\<rparr> \<in> set ns)
          \<and> (\<forall>base ext. f = base @ ''.'' @ ext \<and> CHR ''.'' \<notin> set ext \<longrightarrow>
                \<lparr>name = base, text = t\<rparr> \<in> set ns)"
    using g nodot dot by blast
  have a: "(\<forall>b. f \<noteq> b @ ''.txt'') \<longrightarrow> (\<forall>nm. filePath cache nm \<noteq> cache @ [f])"
    using filePath_ends_txt by blast
  have e: "\<forall>nm. filePath cache nm \<noteq> cache @ [f]"
    if "f = base @ ''.'' @ ext \<and> CHR ''.'' \<notin> set ext \<and> ext \<noteq> ''txt''" for base ext
  proof
    fix nm
    from that have "CHR ''.'' \<notin> set ext" "ext \<noteq> ''txt''" by simp_all
    then have "filePath cache nm \<noteq> cache @ [base @ ''.'' @ ext]"
      by (rule filePath_other_extension)
    with that show "filePath cache nm \<noteq> cache @ [f]" by simp
  qed
  from l a e show ?thesis by blast
qed

theorem listed_name_witness:
  "wf_fs example_fs2
   \<and> lookup example_fs2 [''cache''] = Some Dir
   \<and> lookup example_fs2 ([''cache''] @ [''noext'']) = Some (File ''n'')
   \<and> \<not> hidden ''noext''
   \<and> CHR ''.'' \<notin> set ''noext''
   \<and> lookup example_fs2 ([''cache''] @ [''a.md'']) = Some (File ''y'')
   \<and> \<not> hidden ''a.md''
   \<and> ''a.md'' = ''a'' @ ''.'' @ ''md''
   \<and> CHR ''.'' \<notin> set ''md''
   \<and> ''md'' \<noteq> ''txt''
   \<and> get_notes [''cache''] example_fs2 =
       (\<lparr>status = 200,
          body = Json [\<lparr>name = ''a'', text = ''x''\<rparr>, \<lparr>name = ''a'', text = ''y''\<rparr>,
                       \<lparr>name = ''noext'', text = ''n''\<rparr>]\<rparr>,
        example_fs2)
   \<and> (\<exists>ns. get_notes [''cache''] example_fs2 =
               (\<lparr>status = 200, body = Json ns\<rparr>, example_fs2)
         \<and> \<lparr>name = ''noext'', text = ''n''\<rparr> \<in> set ns
         \<and> \<lparr>name = ''a'', text = ''y''\<rparr> \<in> set ns)
   \<and> filePath [''cache''] ''a'' \<noteq> [''cache''] @ [''a.md'']
   \<and> filePath [''cache''] ''noext'' \<noteq> [''cache''] @ [''noext'']"
proof -
  have h1: "wf_fs example_fs2"
    by (simp add: example_fs2_def example_fs_def wf_fs_def valid_seg_def lookup_def)
  have h2: "lookup example_fs2 [''cache''] = Some Dir"
    by (simp add: example_fs2_def example_fs_def lookup_def)
  have h3: "lookup example_fs2 ([''cache''] @ [''noext'']) = Some (File ''n'')"
    and h4: "lookup example_fs2 ([''cache''] @ [''a.md'']) = Some (File ''y'')"
    by (simp_all add: example_fs2_def example_fs_def lookup_def)
  have h5: "\<not> hidden ''noext''" and h6: "\<not> hidden ''a.md''"
    by (simp_all add: hidden_def startsWith_def)
  have h7: "CHR ''.'' \<notin> set ''noext''" by simp
  have h8a: "''a.md'' = ''a'' @ ''.'' @ ''md''"
    and h8b: "CHR ''.'' \<notin> set ''md''"
    and h8c: "''md'' \<noteq> ''txt''"
    by simp_all
  from h8a h8b h8c
  have h8: "''a.md'' = ''a'' @ ''.'' @ ''md'' \<and> CHR ''.'' \<notin> set ''md'' \<and> ''md'' \<noteq> ''txt''"
    by (intro conjI)
  have h9: "\<forall>b. ''noext'' \<noteq> b @ ''.txt''"
    by (auto simp: append_eq_Cons_conv)
  have e: "get_notes [''cache''] example_fs2 =
       (\<lparr>status = 200,
          body = Json [\<lparr>name = ''a'', text = ''x''\<rparr>, \<lparr>name = ''a'', text = ''y''\<rparr>,
                       \<lparr>name = ''noext'', text = ''n''\<rparr>]\<rparr>,
        example_fs2)"
    by (simp add: example_fs2_def example_fs_def eval_defs)
  note t1 = listed_name [OF h1 h2 h3 h5]
  note t2 = listed_name [OF h1 h2 h4 h6]
  from t1 h7 obtain ns1 where
    n1: "get_notes [''cache''] example_fs2 = (\<lparr>status = 200, body = Json ns1\<rparr>, example_fs2)"
      "\<lparr>name = ''noext'', text = ''n''\<rparr> \<in> set ns1"
    by blast
  from t2 h8 obtain ns2 where
    n2: "get_notes [''cache''] example_fs2 = (\<lparr>status = 200, body = Json ns2\<rparr>, example_fs2)"
      "\<lparr>name = ''a'', text = ''y''\<rparr> \<in> set ns2"
    by blast
  from n1(1) n2(1) have "ns1 = ns2" by simp
  with n1 n2 have l: "\<exists>ns. get_notes [''cache''] example_fs2 =
               (\<lparr>status = 200, body = Json ns\<rparr>, example_fs2)
         \<and> \<lparr>name = ''noext'', text = ''n''\<rparr> \<in> set ns
         \<and> \<lparr>name = ''a'', text = ''y''\<rparr> \<in> set ns"
    by blast
  from t2 h8 have a1: "filePath [''cache''] ''a'' \<noteq> [''cache''] @ [''a.md'']"
    by blast
  from t1 h9 have a2: "filePath [''cache''] ''noext'' \<noteq> [''cache''] @ [''noext'']"
    by blast
  show ?thesis
    by (intro conjI; fact)
qed

subsection \<open>Well-formed file systems\<close>

lemma set_update_subset:
  "e \<in> set (AList.update p v fs) \<Longrightarrow> e = (p, v) \<or> e \<in> set fs"
  by (induction fs) (auto split: if_splits)

lemma wf_fs_update:
  assumes wf: "wf_fs fs"
    and p: "p \<noteq> []" "valid_seg (last p)"
    and parent: "lookup fs (butlast p) = Some Dir"
    and nodir: "lookup fs p \<noteq> Some Dir"
  shows "wf_fs (AList.update p (File t) fs)"
proof -
  have d: "distinct (map fst (AList.update p (File t) fs))"
    using wf by (simp add: wf_fs_def distinct_update)
  have vp: "list_all valid_seg p"
  proof -
    have "list_all valid_seg (butlast p)"
    proof (cases "butlast p = []")
      case True
      then show ?thesis by simp
    next
      case False
      with wf parent show ?thesis by (simp add: wf_fs_entry)
    qed
    with p(2) have "list_all valid_seg (butlast p) \<and> list_all valid_seg [last p]"
      by simp
    then have "list_all valid_seg (butlast p @ [last p])"
      by (simp only: list_all_append)
    with p(1) show ?thesis by (metis append_butlast_last_id)
  qed
  have pp: "butlast p \<noteq> p"
    using p(1) by (metis append_butlast_last_id append_self_conv list.distinct(1))
  have "q \<noteq> [] \<and> list_all valid_seg q
          \<and> lookup (AList.update p (File t) fs) (butlast q) = Some Dir"
    if "(q, n) \<in> set (AList.update p (File t) fs)" for q n
  proof -
    from set_update_subset [OF that] consider "q = p" | "(q, n) \<in> set fs"
      by auto
    then show ?thesis
    proof cases
      case 1
      with p(1) vp parent pp show ?thesis by (simp add: lookup_update)
    next
      case 2
      with wf have q: "q \<noteq> []" "list_all valid_seg q" "lookup fs (butlast q) = Some Dir"
        by (auto simp: wf_fs_def)
      with nodir have "butlast q \<noteq> p" by auto
      with q p(1) show ?thesis by (simp add: lookup_update)
    qed
  qed
  with d show ?thesis
    unfolding wf_fs_def by blast
qed

lemma wf_fs_delete:
  assumes wf: "wf_fs fs" and p: "p \<noteq> []" and nodir: "lookup fs p \<noteq> Some Dir"
  shows "wf_fs (AList.delete p fs)"
proof -
  have d: "distinct (map fst (AList.delete p fs))"
    using wf by (simp add: wf_fs_def distinct_delete)
  have "q \<noteq> [] \<and> list_all valid_seg q \<and> lookup (AList.delete p fs) (butlast q) = Some Dir"
    if "(q, n) \<in> set (AList.delete p fs)" for q n
  proof -
    from that have "(q, n) \<in> set fs"
      by (auto simp: AList.delete_eq)
    with wf have q: "q \<noteq> []" "list_all valid_seg q" "lookup fs (butlast q) = Some Dir"
      by (auto simp: wf_fs_def)
    with nodir have "butlast q \<noteq> p" by auto
    with q p show ?thesis by (simp add: lookup_delete)
  qed
  with d show ?thesis
    unfolding wf_fs_def by blast
qed

lemma wf_fs_writeFileSync:
  assumes "wf_fs fs" "writeFileSync fs (filePath cache nm) v = Inr fs'"
  shows "wf_fs fs'"
proof -
  let ?p = "filePath cache nm"
  from assms(2) obtain t where t: "v = Some t" "\<not> has_nul ?p" "fs' = AList.update ?p (File t) fs"
    by (auto dest: writeFileSync_Inr)
  from assms(2) t have nodir: "lookup fs ?p \<noteq> Some Dir"
    by (auto simp: writeFileSync_def)
  have parent: "lookup fs (butlast ?p) = Some Dir"
  proof (cases "lookup fs ?p")
    case None
    with assms(2) t show ?thesis
      by (auto simp: writeFileSync_def split: option.splits node.splits)
  next
    case (Some a)
    with assms(1) show ?thesis
      by (simp add: wf_fs_entry filePath_not_root)
  qed
  show ?thesis
    unfolding t(3) using assms(1) filePath_not_root last_filePath_valid [OF t(2)] parent nodir
    by (rule wf_fs_update)
qed

subsection \<open>The layout of the store\<close>

lemma post_write_cases:
  "post_write cache v note fs = (send 400 ''Note already exists'', fs)
   \<or> (\<exists>e. post_write cache v note fs = (uncaught e, fs))
   \<or> (\<exists>fs'. writeFileSync fs (filePath cache (js_string v)) note = Inr fs'
         \<and> post_write cache v note fs = (send 201 ''Note created'', fs'))"
  by (cases "writeFileSync fs (filePath cache (js_string v)) note")
    (auto simp: post_write_def Let_def)

lemma put_note_cases:
  "put_note cache nm b fs = (sendStatus404, fs)
   \<or> (\<exists>e. put_note cache nm b fs = (uncaught e, fs))
   \<or> (\<exists>fs'. writeFileSync fs (filePath cache nm) b = Inr fs'
         \<and> put_note cache nm b fs = (send 200 ''Note updated'', fs'))"
  by (cases "writeFileSync fs (filePath cache nm) b")
    (auto simp: put_note_def Let_def)

lemma delete_note_cases:
  "delete_note cache nm fs = (sendStatus404, fs)
   \<or> (\<exists>e. delete_note cache nm fs = (uncaught e, fs))
   \<or> (\<exists>t. lookup fs (filePath cache nm) = Some (File t)
         \<and> delete_note cache nm fs =
             (send 200 ''Note deleted'', AList.delete (filePath cache nm) fs))"
  by (cases "unlinkSync fs (filePath cache nm)")
    (auto simp: delete_note_def Let_def unlinkSync_def
      split: if_splits option.splits node.splits)

lemma get_note_unchanged: "snd (get_note cache nm fs) = fs"
  by (cases "readFileSync fs (filePath cache nm)") (auto simp: get_note_def Let_def)

lemma get_notes_unchanged: "snd (get_notes cache fs) = fs"
  by (auto simp: get_notes_def split: sum.splits)

lemma wf_fs_post_write: "wf_fs fs \<Longrightarrow> wf_fs (snd (post_write cache v nt fs))"
  using post_write_cases [of cache v nt fs] by (auto dest: wf_fs_writeFileSync)

lemma wf_fs_put_note: "wf_fs fs \<Longrightarrow> wf_fs (snd (put_note cache nm b fs))"
  using put_note_cases [of cache nm b fs] by (auto dest: wf_fs_writeFileSync)

lemma wf_fs_delete_note: "wf_fs fs \<Longrightarrow> wf_fs (snd (delete_note cache nm fs))"
  using delete_note_cases [of cache nm fs]
  by (auto simp: filePath_not_root intro!: wf_fs_delete)

lemma files_at_distinct:
  "distinct (map fst fs) \<Longrightarrow> (p, v) \<in> set fs \<Longrightarrow> files_at fs p = [(p, v)]"
  unfolding files_at_def
proof (induction fs)
  case Nil
  then show ?case by simp
next
  case (Cons e fs)
  show ?case
  proof (cases "fst e = p")
    case True
    with Cons.prems have "e = (p, v)"
      by (cases e) (auto simp: image_iff)
    moreover from True Cons.prems have "filter (\<lambda>e. fst e = p) fs = []"
      by (auto simp: filter_empty_conv image_iff)
    ultimately show ?thesis by simp
  next
    case False
    with Cons show ?thesis by auto
  qed
qed

lemma files_at_le_1: "wf_fs fs \<Longrightarrow> length (files_at fs p) \<le> 1"
proof (cases "files_at fs p")
  case Nil
  then show ?thesis by simp
next
  case (Cons e es)
  assume wf: "wf_fs fs"
  from Cons have "e \<in> set (files_at fs p)" by simp
  then have "(p, snd e) \<in> set fs"
    by (auto simp: files_at_def)
  with wf have "files_at fs p = [(p, snd e)]"
    by (simp add: wf_fs_def files_at_distinct)
  then show ?thesis by simp
qed

lemma files_at_written:
  assumes wf: "wf_fs fs" and w: "writeFileSync fs (filePath cache nm) v = Inr fs'"
  shows "\<exists>t. v = Some t \<and> files_at fs' (filePath cache nm) = [(filePath cache nm, File t)]"
proof -
  let ?p = "filePath cache nm"
  from writeFileSync_Inr [OF w] obtain t where
    t: "v = Some t" "?p \<noteq> []" "fs' = AList.update ?p (File t) fs"
    by blast
  then have "map_of fs' ?p = Some (File t)"
    by (simp add: update_conv')
  then have "(?p, File t) \<in> set fs'"
    by (rule map_of_SomeD)
  moreover have "wf_fs fs'"
    using wf w by (rule wf_fs_writeFileSync)
  ultimately show ?thesis
    using t(1) by (simp add: wf_fs_def files_at_distinct)
qed

lemma files_at_delete: "files_at (AList.delete p fs) p = []"
  by (auto simp: files_at_def AList.delete_eq filter_empty_conv)

lemma post_write_creates:
  assumes "lookup fs (filePath cache nm) = None"
    and "lookup fs (butlast (filePath cache nm)) = Some Dir"
    and "\<not> has_nul (filePath cache nm)"
  shows "post_write cache (Some nm) (Some t) fs =
           (send 201 ''Note created'', AList.update (filePath cache nm) (File t) fs)"
  using assms by (simp add: post_write_def js_string_def existsSync_def writeFileSync_def)

lemma put_note_updates:
  assumes "wf_fs fs" "lookup fs (filePath cache nm) = Some (File old)"
  shows "put_note cache nm (Some t) fs =
           (send 200 ''Note updated'', AList.update (filePath cache nm) (File t) fs)"
proof -
  have "\<not> has_nul (filePath cache nm)"
    using assms by (rule wf_fs_no_nul)
  with assms(2) show ?thesis
    by (simp add: put_note_def existsSync_def writeFileSync_def)
qed

lemma delete_note_deletes:
  assumes "wf_fs fs" "lookup fs (filePath cache nm) = Some (File old)"
  shows "delete_note cache nm fs =
           (send 200 ''Note deleted'', AList.delete (filePath cache nm) fs)"
proof -
  have "\<not> has_nul (filePath cache nm)"
    using assms by (rule wf_fs_no_nul)
  with assms(2) show ?thesis
    by (simp add: delete_note_def existsSync_def unlinkSync_def)
qed

lemma files_at_update:
  assumes "wf_fs (AList.update p v fs)"
  shows "files_at (AList.update p v fs) p = [(p, v)]"
proof -
  have "map_of (AList.update p v fs) p = Some v"
    by (simp add: update_conv')
  then have "(p, v) \<in> set (AList.update p v fs)"
    by (rule map_of_SomeD)
  with assms show ?thesis
    by (simp add: wf_fs_def files_at_distinct)
qed

text \<open>
  C6. Every handler takes a well-formed file system to a well-formed one, in which no
  location has two entries: after every operation at most one file exists for a name.
  A \<^verbatim>\<open>POST /write\<close> for a name with nothing at its path (in an existing directory) answers
  201, and a \<^verbatim>\<open>PUT\<close> for a name whose file exists answers 200; after either there is
  exactly one entry at the path of the name, a regular file whose content is the text as
  it was sent, with nothing added. A \<^verbatim>\<open>DELETE\<close> for a name whose file exists answers 200 and
  leaves no entry at the path. The path of a name \<open>nm\<close> without separator is
  \<^verbatim>\<open><cache>/<nm>.txt\<close>.
\<close>

theorem store_layout:
  assumes wf: "wf_fs fs"
  shows "wf_fs (snd (post_write cache note_name nt fs))
         \<and> wf_fs (snd (get_note cache nm fs))
         \<and> wf_fs (snd (put_note cache nm req_body fs))
         \<and> wf_fs (snd (delete_note cache nm fs))
         \<and> wf_fs (snd (get_notes cache fs))
         \<and> (\<forall>n. length (files_at (snd (post_write cache note_name nt fs)) (filePath cache n)) \<le> 1
                \<and> length (files_at (snd (put_note cache nm req_body fs)) (filePath cache n)) \<le> 1
                \<and> length (files_at (snd (delete_note cache nm fs)) (filePath cache n)) \<le> 1)
         \<and> (lookup fs (filePath cache nm) = None
              \<and> lookup fs (butlast (filePath cache nm)) = Some Dir
              \<and> \<not> has_nul (filePath cache nm) \<longrightarrow>
              status (fst (post_write cache (Some nm) (Some t) fs)) = 201
              \<and> files_at (snd (post_write cache (Some nm) (Some t) fs)) (filePath cache nm) =
                  [(filePath cache nm, File t)])
         \<and> (lookup fs (filePath cache nm2) = Some (File old) \<longrightarrow>
              status (fst (put_note cache nm2 (Some t) fs)) = 200
              \<and> files_at (snd (put_note cache nm2 (Some t) fs)) (filePath cache nm2) =
                  [(filePath cache nm2, File t)]
              \<and> status (fst (delete_note cache nm2 fs)) = 200
              \<and> files_at (snd (delete_note cache nm2 fs)) (filePath cache nm2) = [])
         \<and> (status (fst (post_write cache (Some nm) (Some t) fs)) = 201 \<longrightarrow>
              files_at (snd (post_write cache (Some nm) (Some t) fs)) (filePath cache nm) =
                [(filePath cache nm, File t)])
         \<and> (status (fst (put_note cache nm (Some t) fs)) = 200 \<longrightarrow>
              files_at (snd (put_note cache nm (Some t) fs)) (filePath cache nm) =
                [(filePath cache nm, File t)])
         \<and> (CHR ''/'' \<notin> set nm \<longrightarrow> filePath cache nm = cache @ [nm @ ''.txt''])"
proof -
  have i: "wf_fs (snd (post_write cache note_name nt fs))"
    "wf_fs (snd (get_note cache nm fs))"
    "wf_fs (snd (put_note cache nm req_body fs))"
    "wf_fs (snd (delete_note cache nm fs))"
    "wf_fs (snd (get_notes cache fs))"
    using wf
    by (simp_all add: wf_fs_post_write wf_fs_put_note wf_fs_delete_note get_note_unchanged
        get_notes_unchanged)
  have a: "\<forall>n. length (files_at (snd (post_write cache note_name nt fs)) (filePath cache n)) \<le> 1
                \<and> length (files_at (snd (put_note cache nm req_body fs)) (filePath cache n)) \<le> 1
                \<and> length (files_at (snd (delete_note cache nm fs)) (filePath cache n)) \<le> 1"
    using i(1,3,4) files_at_le_1 by blast
  have c0: "lookup fs (filePath cache nm) = None
              \<and> lookup fs (butlast (filePath cache nm)) = Some Dir
              \<and> \<not> has_nul (filePath cache nm) \<longrightarrow>
              status (fst (post_write cache (Some nm) (Some t) fs)) = 201
              \<and> files_at (snd (post_write cache (Some nm) (Some t) fs)) (filePath cache nm) =
                  [(filePath cache nm, File t)]"
  proof
    assume h: "lookup fs (filePath cache nm) = None
              \<and> lookup fs (butlast (filePath cache nm)) = Some Dir
              \<and> \<not> has_nul (filePath cache nm)"
    then have e: "post_write cache (Some nm) (Some t) fs =
           (send 201 ''Note created'', AList.update (filePath cache nm) (File t) fs)"
      by (simp add: post_write_creates)
    from wf have "wf_fs (snd (post_write cache (Some nm) (Some t) fs))"
      by (rule wf_fs_post_write)
    with e have "wf_fs (AList.update (filePath cache nm) (File t) fs)"
      by simp
    then have "files_at (AList.update (filePath cache nm) (File t) fs) (filePath cache nm) =
        [(filePath cache nm, File t)]"
      by (rule files_at_update)
    with e show "status (fst (post_write cache (Some nm) (Some t) fs)) = 201
              \<and> files_at (snd (post_write cache (Some nm) (Some t) fs)) (filePath cache nm) =
                  [(filePath cache nm, File t)]"
      by (simp add: send_def)
  qed
  have u0: "lookup fs (filePath cache nm2) = Some (File old) \<longrightarrow>
              status (fst (put_note cache nm2 (Some t) fs)) = 200
              \<and> files_at (snd (put_note cache nm2 (Some t) fs)) (filePath cache nm2) =
                  [(filePath cache nm2, File t)]
              \<and> status (fst (delete_note cache nm2 fs)) = 200
              \<and> files_at (snd (delete_note cache nm2 fs)) (filePath cache nm2) = []"
  proof
    assume h: "lookup fs (filePath cache nm2) = Some (File old)"
    have e: "put_note cache nm2 (Some t) fs =
           (send 200 ''Note updated'', AList.update (filePath cache nm2) (File t) fs)"
      using wf h by (rule put_note_updates)
    have d: "delete_note cache nm2 fs =
           (send 200 ''Note deleted'', AList.delete (filePath cache nm2) fs)"
      using wf h by (rule delete_note_deletes)
    from wf have "wf_fs (snd (put_note cache nm2 (Some t) fs))"
      by (rule wf_fs_put_note)
    with e have "wf_fs (AList.update (filePath cache nm2) (File t) fs)"
      by simp
    then have "files_at (AList.update (filePath cache nm2) (File t) fs) (filePath cache nm2) =
        [(filePath cache nm2, File t)]"
      by (rule files_at_update)
    with e d show "status (fst (put_note cache nm2 (Some t) fs)) = 200
              \<and> files_at (snd (put_note cache nm2 (Some t) fs)) (filePath cache nm2) =
                  [(filePath cache nm2, File t)]
              \<and> status (fst (delete_note cache nm2 fs)) = 200
              \<and> files_at (snd (delete_note cache nm2 fs)) (filePath cache nm2) = []"
      by (simp add: send_def files_at_delete)
  qed
  have c: "status (fst (post_write cache (Some nm) (Some t) fs)) = 201 \<longrightarrow>
              files_at (snd (post_write cache (Some nm) (Some t) fs)) (filePath cache nm) =
                [(filePath cache nm, File t)]"
  proof
    assume "status (fst (post_write cache (Some nm) (Some t) fs)) = 201"
    with post_write_cases [of cache "Some nm" "Some t" fs] obtain fs'
      where w: "writeFileSync fs (filePath cache nm) (Some t) = Inr fs'"
        and r: "post_write cache (Some nm) (Some t) fs = (send 201 ''Note created'', fs')"
      by (auto simp: send_def uncaught_def js_string_def)
    from files_at_written [OF wf w] r
    show "files_at (snd (post_write cache (Some nm) (Some t) fs)) (filePath cache nm) =
            [(filePath cache nm, File t)]"
      by simp
  qed
  have u: "status (fst (put_note cache nm (Some t) fs)) = 200 \<longrightarrow>
              files_at (snd (put_note cache nm (Some t) fs)) (filePath cache nm) =
                [(filePath cache nm, File t)]"
  proof
    assume "status (fst (put_note cache nm (Some t) fs)) = 200"
    with put_note_cases [of cache nm "Some t" fs] obtain fs'
      where w: "writeFileSync fs (filePath cache nm) (Some t) = Inr fs'"
        and r: "put_note cache nm (Some t) fs = (send 200 ''Note updated'', fs')"
      by (auto simp: send_def uncaught_def sendStatus404_def)
    from files_at_written [OF wf w] r
    show "files_at (snd (put_note cache nm (Some t) fs)) (filePath cache nm) =
            [(filePath cache nm, File t)]"
      by simp
  qed
  have v: "CHR ''/'' \<notin> set nm \<longrightarrow> filePath cache nm = cache @ [nm @ ''.txt'']"
    by (simp add: filePath_valid)
  show ?thesis
    by (intro conjI; fact)
qed

theorem store_layout_witness:
  "wf_fs [([''cache''], Dir), ([''cache'', ''foo.txt''], File ''hello'')]
   \<and> lookup [([''cache''], Dir), ([''cache'', ''foo.txt''], File ''hello'')]
        (filePath [''cache''] ''bar'') = None
   \<and> lookup [([''cache''], Dir), ([''cache'', ''foo.txt''], File ''hello'')]
        (butlast (filePath [''cache''] ''bar'')) = Some Dir
   \<and> \<not> has_nul (filePath [''cache''] ''bar'')
   \<and> lookup [([''cache''], Dir), ([''cache'', ''foo.txt''], File ''hello'')]
        (filePath [''cache''] ''foo'') = Some (File ''hello'')
   \<and> CHR ''/'' \<notin> set ''bar''
   \<and> post_write [''cache''] (Some ''bar'') (Some ''world'')
        [([''cache''], Dir), ([''cache'', ''foo.txt''], File ''hello'')] =
       (\<lparr>status = 201, body = Text ''Note created''\<rparr>,
        [([''cache''], Dir), ([''cache'', ''foo.txt''], File ''hello''),
         ([''cache'', ''bar.txt''], File ''world'')])
   \<and> put_note [''cache''] ''foo'' (Some ''world'')
        [([''cache''], Dir), ([''cache'', ''foo.txt''], File ''hello'')] =
       (\<lparr>status = 200, body = Text ''Note updated''\<rparr>,
        [([''cache''], Dir), ([''cache'', ''foo.txt''], File ''world'')])
   \<and> files_at (snd (put_note [''cache''] ''foo'' (Some ''world'')
        [([''cache''], Dir), ([''cache'', ''foo.txt''], File ''hello'')]))
        (filePath [''cache''] ''foo'') = [([''cache'', ''foo.txt''], File ''world'')]
   \<and> files_at (snd (post_write [''cache''] (Some ''bar'') (Some ''world'')
        [([''cache''], Dir), ([''cache'', ''foo.txt''], File ''hello'')]))
        (filePath [''cache''] ''bar'') = [([''cache'', ''bar.txt''], File ''world'')]
   \<and> files_at (snd (delete_note [''cache''] ''foo''
        [([''cache''], Dir), ([''cache'', ''foo.txt''], File ''hello'')]))
        (filePath [''cache''] ''foo'') = []"
proof -
  let ?fs = "[([''cache''], Dir), ([''cache'', ''foo.txt''], File ''hello'')]"
  have h: "wf_fs ?fs"
    by (simp add: wf_fs_def valid_seg_def lookup_def)
  have pb: "filePath [''cache''] ''bar'' = [''cache'', ''bar.txt'']"
    and pf: "filePath [''cache''] ''foo'' = [''cache'', ''foo.txt'']"
    by (simp_all add: filePath_def path_join_def)
  have h1: "lookup ?fs (filePath [''cache''] ''bar'') = None"
    and h2: "lookup ?fs (butlast (filePath [''cache''] ''bar'')) = Some Dir"
    and h3: "\<not> has_nul (filePath [''cache''] ''bar'')"
    and h4: "lookup ?fs (filePath [''cache''] ''foo'') = Some (File ''hello'')"
    by (simp_all add: pb pf lookup_def has_nul_def)
  have e1: "post_write [''cache''] (Some ''bar'') (Some ''world'') ?fs =
       (\<lparr>status = 201, body = Text ''Note created''\<rparr>,
        [([''cache''], Dir), ([''cache'', ''foo.txt''], File ''hello''),
         ([''cache'', ''bar.txt''], File ''world'')])"
    by (simp add: eval_defs)
  have e2: "put_note [''cache''] ''foo'' (Some ''world'') ?fs =
       (\<lparr>status = 200, body = Text ''Note updated''\<rparr>,
        [([''cache''], Dir), ([''cache'', ''foo.txt''], File ''world'')])"
    by (simp add: eval_defs)
  note t = store_layout [OF h, of "[''cache'']" "Some ''bar''" "Some ''world''" "''bar''"
      "Some ''world''" "''world''" "''foo''" "''hello''"]
  from t h1 h2 h3 have c: "files_at (snd (post_write [''cache''] (Some ''bar'') (Some ''world'') ?fs))
        (filePath [''cache''] ''bar'') = [(filePath [''cache''] ''bar'', File ''world'')]"
    by blast
  from t h4 have u: "files_at (snd (put_note [''cache''] ''foo'' (Some ''world'') ?fs))
        (filePath [''cache''] ''foo'') = [(filePath [''cache''] ''foo'', File ''world'')]"
    and d: "files_at (snd (delete_note [''cache''] ''foo'' ?fs)) (filePath [''cache''] ''foo'') = []"
    by blast+
  have h5: "CHR ''/'' \<notin> set ''bar''" by simp
  from h h1 h2 h3 h4 h5 e1 e2 c u d show ?thesis
    by (simp add: pb pf)
qed

subsection \<open>Missing form fields\<close>

text \<open>
  C7 (as amended). \<^verbatim>\<open>POST /write\<close> has no check of its own for the presence of its fields.
  A request without the field \<^verbatim>\<open>note\<close> is still rejected and leaves the file system as it
  is: with 500 when \<^verbatim>\<open>req.body\<close> is undefined; when there is a body, with 400 if something
  exists at the path built from \<^verbatim>\<open>note_name\<close>, and with 500 from the failed write if nothing
  exists there.
\<close>

theorem missing_note_rejected:
  "post_write_handler cache Undefined fs =
     (\<lparr>status = 500, body = ErrorPage TypeError\<rparr>, fs)
   \<and> (existsSync fs (filePath cache (js_string note_name)) \<longrightarrow>
        post_write_handler cache (Form note_name None) fs =
          (\<lparr>status = 400, body = Text ''Note already exists''\<rparr>, fs))
   \<and> (\<not> existsSync fs2 (filePath cache (js_string note_name2)) \<longrightarrow>
        post_write_handler cache (Form note_name2 None) fs2 =
          (\<lparr>status = 500, body = ErrorPage ERR_INVALID_ARG_TYPE\<rparr>, fs2))"
  by (simp add: post_write_handler_def post_write_def Let_def writeFileSync_def send_def
      uncaught_def)

theorem missing_note_rejected_witness:
  "existsSync [([''cache''], Dir), ([''cache'', ''undefined.txt''], File ''u'')]
     (filePath [''cache''] (js_string None))
   \<and> post_write_handler [''cache''] (Form None None)
        [([''cache''], Dir), ([''cache'', ''undefined.txt''], File ''u'')] =
       (\<lparr>status = 400, body = Text ''Note already exists''\<rparr>,
        [([''cache''], Dir), ([''cache'', ''undefined.txt''], File ''u'')])
   \<and> \<not> existsSync [([''cache''], Dir)] (filePath [''cache''] (js_string (Some ''foo'')))
   \<and> post_write_handler [''cache''] (Form (Some ''foo'') None) [([''cache''], Dir)] =
       (\<lparr>status = 500, body = ErrorPage ERR_INVALID_ARG_TYPE\<rparr>, [([''cache''], Dir)])
   \<and> post_write_handler [''cache''] Undefined
        [([''cache''], Dir), ([''cache'', ''undefined.txt''], File ''u'')] =
       (\<lparr>status = 500, body = ErrorPage TypeError\<rparr>,
        [([''cache''], Dir), ([''cache'', ''undefined.txt''], File ''u'')])"
proof -
  let ?fs = "[([''cache''], Dir), ([''cache'', ''undefined.txt''], File ''u'')]"
  have h1: "existsSync ?fs (filePath [''cache''] (js_string None))"
    by (simp add: eval_defs)
  have h2: "\<not> existsSync [([''cache''], Dir)] (filePath [''cache''] (js_string (Some ''foo'')))"
    by (simp add: eval_defs)
  note t = missing_note_rejected [of "[''cache'']" ?fs None "[([''cache''], Dir)]" "Some ''foo''"]
  from t have a: "post_write_handler [''cache''] Undefined ?fs =
       (\<lparr>status = 500, body = ErrorPage TypeError\<rparr>, ?fs)"
    by (rule conjunct1)
  from t h1 have b: "post_write_handler [''cache''] (Form None None) ?fs =
       (\<lparr>status = 400, body = Text ''Note already exists''\<rparr>, ?fs)"
    by blast
  from t h2 have c: "post_write_handler [''cache''] (Form (Some ''foo'') None) [([''cache''], Dir)] =
       (\<lparr>status = 500, body = ErrorPage ERR_INVALID_ARG_TYPE\<rparr>, [([''cache''], Dir)])"
    by blast
  from h1 h2 a b c show ?thesis by simp
qed

text \<open>
  The presence of \<^verbatim>\<open>note_name\<close> is not enforced: a request with the field \<^verbatim>\<open>note\<close> alone
  answers 201 and makes the file \<^verbatim>\<open>undefined.txt\<close>.
\<close>

theorem missing_field_counterexample:
  "post_write_handler [''cache''] (Form None (Some ''hello'')) [([''cache''], Dir)] =
     (\<lparr>status = 201, body = Text ''Note created''\<rparr>,
      [([''cache''], Dir), ([''cache'', ''undefined.txt''], File ''hello'')])"
  by (simp add: post_write_handler_def eval_defs)

subsection \<open>Names and locations\<close>

lemma writeFileSync_frame:
  "writeFileSync fs p v = Inr fs' \<Longrightarrow> q \<noteq> p \<Longrightarrow> lookup fs' q = lookup fs q"
  by (auto dest!: writeFileSync_Inr simp: lookup_update)

lemma post_write_frame:
  "q \<noteq> filePath cache (js_string v) \<Longrightarrow> lookup (snd (post_write cache v nt fs)) q = lookup fs q"
  using post_write_cases [of cache v nt fs] by (auto dest: writeFileSync_frame)

lemma put_note_frame:
  "q \<noteq> filePath cache nm \<Longrightarrow> lookup (snd (put_note cache nm b fs)) q = lookup fs q"
  using put_note_cases [of cache nm b fs] by (auto dest: writeFileSync_frame)

lemma delete_note_frame:
  "q \<noteq> filePath cache nm \<Longrightarrow> lookup (snd (delete_note cache nm fs)) q = lookup fs q"
  using delete_note_cases [of cache nm fs] by (auto simp: lookup_delete filePath_not_root)

lemma get_note_depends:
  "lookup fs (filePath cache nm) = lookup fs2 (filePath cache nm) \<Longrightarrow>
   fst (get_note cache nm fs) = fst (get_note cache nm fs2)"
  by (simp add: get_note_def Let_def existsSync_def readFileSync_def
      split: option.splits node.splits)

lemma climbs_no_parent: "''..'' \<notin> set segs \<Longrightarrow> \<not> climbs d segs"
  by (induction segs arbitrary: d) auto

lemma normalize_segs_below:
  "\<not> climbs (length rest) segs \<Longrightarrow> \<exists>rest'. normalize_segs (cache @ rest) segs = cache @ rest'"
proof (induction segs arbitrary: rest)
  case Nil
  then show ?case by simp
next
  case (Cons s segs)
  show ?case
  proof (cases "s = [] \<or> s = ''.''")
    case True
    with Cons show ?thesis by simp
  next
    case False
    show ?thesis
    proof (cases "s = ''..''")
      case True
      with Cons.prems have r: "rest \<noteq> []" and c: "\<not> climbs (length (butlast rest)) segs"
        by auto
      from r have "butlast (cache @ rest) = cache @ butlast rest"
        by (simp add: butlast_append)
      with Cons.IH [OF c] True show ?thesis by simp
    next
      case other: False
      with False Cons.prems have "\<not> climbs (length (rest @ [s])) segs"
        by simp
      from Cons.IH [OF this] False other show ?thesis by simp
    qed
  qed
qed

lemma inside_filePath:
  assumes "\<not> climbs 0 (butlast (split_sep nm))"
  shows "inside cache (filePath cache nm)"
proof -
  from assms have "\<not> climbs (length ([]::string list)) (butlast (split_sep nm))"
    by simp
  from normalize_segs_below [OF this, of cache] obtain rest'
    where "normalize_segs cache (butlast (split_sep nm)) = cache @ rest'"
    by auto
  then show ?thesis
    by (simp add: filePath_last inside_def)
qed

text \<open>
  C8 (as amended). The path of a name lies inside the cache directory whenever the
  directory segments of the name never climb above the cache directory through a parent
  segment \<^verbatim>\<open>..\<close>; in particular for every name without a parent segment before its last
  separator, with or without separators. For a name without separator the path is
  \<^verbatim>\<open><cache>/<nm>.txt\<close> (two dots in such a name are part of the file name). Whenever the path
  of the name lies inside the cache directory, create, update and delete change no
  location outside the cache directory and the answer of a read does not depend on
  anything outside of it; a read changes nothing.
\<close>

theorem confined_names:
  "(''..'' \<notin> set (butlast (split_sep nm)) \<longrightarrow> inside cache (filePath cache nm))
   \<and> (\<not> climbs 0 (butlast (split_sep nm)) \<longrightarrow> inside cache (filePath cache nm))
   \<and> (CHR ''/'' \<notin> set nm \<longrightarrow> filePath cache nm = cache @ [nm @ ''.txt''])
   \<and> (inside cache (filePath cache nm) \<longrightarrow>
        (\<forall>q. \<not> inside cache q \<longrightarrow>
               lookup (snd (post_write cache (Some nm) nt fs)) q = lookup fs q
             \<and> lookup (snd (put_note cache nm req_body fs)) q = lookup fs q
             \<and> lookup (snd (delete_note cache nm fs)) q = lookup fs q)
        \<and> ((\<forall>q. inside cache q \<longrightarrow> lookup fs q = lookup fs2 q) \<longrightarrow>
               fst (get_note cache nm fs) = fst (get_note cache nm fs2)))
   \<and> snd (get_note cache nm fs) = fs"
proof -
  have a: "''..'' \<notin> set (butlast (split_sep nm)) \<longrightarrow> inside cache (filePath cache nm)"
    by (simp add: climbs_no_parent inside_filePath)
  have b: "\<not> climbs 0 (butlast (split_sep nm)) \<longrightarrow> inside cache (filePath cache nm)"
    by (simp add: inside_filePath)
  have c: "CHR ''/'' \<notin> set nm \<longrightarrow> filePath cache nm = cache @ [nm @ ''.txt'']"
    by (simp add: filePath_valid)
  have d: "(\<forall>q. \<not> inside cache q \<longrightarrow>
               lookup (snd (post_write cache (Some nm) nt fs)) q = lookup fs q
             \<and> lookup (snd (put_note cache nm req_body fs)) q = lookup fs q
             \<and> lookup (snd (delete_note cache nm fs)) q = lookup fs q)
        \<and> ((\<forall>q. inside cache q \<longrightarrow> lookup fs q = lookup fs2 q) \<longrightarrow>
               fst (get_note cache nm fs) = fst (get_note cache nm fs2))"
    if i: "inside cache (filePath cache nm)"
  proof -
    have "lookup (snd (post_write cache (Some nm) nt fs)) q = lookup fs q
             \<and> lookup (snd (put_note cache nm req_body fs)) q = lookup fs q
             \<and> lookup (snd (delete_note cache nm fs)) q = lookup fs q"
      if "\<not> inside cache q" for q
    proof -
      from that i have "q \<noteq> filePath cache nm" by auto
      then show ?thesis
        using post_write_frame [of q cache "Some nm" nt fs]
        by (simp add: put_note_frame delete_note_frame js_string_def)
    qed
    moreover have "(\<forall>q. inside cache q \<longrightarrow> lookup fs q = lookup fs2 q) \<longrightarrow>
               fst (get_note cache nm fs) = fst (get_note cache nm fs2)"
      using i by (auto intro: get_note_depends)
    ultimately show ?thesis by blast
  qed
  have e: "snd (get_note cache nm fs) = fs"
    by (rule get_note_unchanged)
  from a b c d e show ?thesis by blast
qed

theorem confined_names_witness:
  "''..'' \<notin> set (butlast (split_sep ''sub/x''))
   \<and> filePath [''srv'', ''cache''] ''sub/x'' = [''srv'', ''cache'', ''sub'', ''x.txt'']
   \<and> inside [''srv'', ''cache''] (filePath [''srv'', ''cache''] ''sub/x'')
   \<and> \<not> climbs 0 (butlast (split_sep ''a/../b''))
   \<and> filePath [''srv'', ''cache''] ''a/../b'' = [''srv'', ''cache'', ''b.txt'']
   \<and> inside [''srv'', ''cache''] (filePath [''srv'', ''cache''] ''a/../b'')
   \<and> CHR ''/'' \<notin> set ''..''
   \<and> filePath [''srv'', ''cache''] ''..'' = [''srv'', ''cache'', ''...txt'']
   \<and> \<not> inside [''srv'', ''cache''] [''srv'', ''x.txt'']
   \<and> post_write [''srv'', ''cache''] (Some ''a/../b'') (Some ''t'')
         [([''srv''], Dir), ([''srv'', ''cache''], Dir)] =
       (\<lparr>status = 201, body = Text ''Note created''\<rparr>,
        [([''srv''], Dir), ([''srv'', ''cache''], Dir), ([''srv'', ''cache'', ''b.txt''], File ''t'')])
   \<and> lookup (snd (post_write [''srv'', ''cache''] (Some ''a/../b'') (Some ''t'')
         [([''srv''], Dir), ([''srv'', ''cache''], Dir)])) [''srv'', ''x.txt''] = None"
proof -
  let ?c = "[''srv'', ''cache'']"
  let ?fs = "[([''srv''], Dir), ([''srv'', ''cache''], Dir)]"
  have s1: "butlast (split_sep ''sub/x'') = [''sub'']"
    and s2: "butlast (split_sep ''a/../b'') = [''a'', ''..'']"
    by (simp_all add: Let_def)
  have h1: "''..'' \<notin> set (butlast (split_sep ''sub/x''))"
    by (simp add: s1)
  have h2: "\<not> climbs 0 (butlast (split_sep ''a/../b''))"
    by (simp add: s2)
  have h3: "CHR ''/'' \<notin> set ''..''" by simp
  have p1: "filePath ?c ''sub/x'' = [''srv'', ''cache'', ''sub'', ''x.txt'']"
    and p2: "filePath ?c ''a/../b'' = [''srv'', ''cache'', ''b.txt'']"
    by (simp_all add: filePath_def path_join_def Let_def)
  have n: "\<not> inside ?c [''srv'', ''x.txt'']"
    by (simp add: inside_def)
  have l: "lookup ?fs [''srv'', ''x.txt''] = None"
    by (simp add: lookup_def)
  have e: "post_write ?c (Some ''a/../b'') (Some ''t'') ?fs =
       (\<lparr>status = 201, body = Text ''Note created''\<rparr>,
        [([''srv''], Dir), ([''srv'', ''cache''], Dir), ([''srv'', ''cache'', ''b.txt''], File ''t'')])"
    by (simp add: eval_defs Let_def)
  note t1 = confined_names [of "''sub/x''" ?c "Some ''t''" ?fs None "[]"]
  note t2 = confined_names [of "''a/../b''" ?c "Some ''t''" ?fs None "[]"]
  note t3 = confined_names [of "''..''" ?c "Some ''t''" ?fs None "[]"]
  from t1 h1 have i1: "inside ?c (filePath ?c ''sub/x'')" by blast
  from t2 h2 have i2: "inside ?c (filePath ?c ''a/../b'')" by blast
  from t3 h3 have p3: "filePath ?c ''..'' = ?c @ [''..'' @ ''.txt'']" by blast
  from t2 i2 n have f: "lookup (snd (post_write ?c (Some ''a/../b'') (Some ''t'') ?fs))
      [''srv'', ''x.txt''] = lookup ?fs [''srv'', ''x.txt'']"
    by blast
  from h1 h2 h3 p1 p2 p3 i1 i2 n e f l show ?thesis by simp
qed

text \<open>
  The handlers do not inspect the name. With a parent segment that climbs above the cache
  directory the path leaves it, and a file outside of it is written, read and deleted.
\<close>

theorem traversal_counterexample:
  "climbs 0 (butlast (split_sep ''../x''))
   \<and> filePath [''srv'', ''cache''] ''../x'' = [''srv'', ''x.txt'']
   \<and> \<not> inside [''srv'', ''cache''] (filePath [''srv'', ''cache''] ''../x'')
   \<and> post_write [''srv'', ''cache''] (Some ''../x'') (Some ''t'')
        [([''srv''], Dir), ([''srv'', ''cache''], Dir)] =
       (\<lparr>status = 201, body = Text ''Note created''\<rparr>,
        [([''srv''], Dir), ([''srv'', ''cache''], Dir), ([''srv'', ''x.txt''], File ''t'')])
   \<and> get_note [''srv'', ''cache''] ''../x''
        [([''srv''], Dir), ([''srv'', ''cache''], Dir), ([''srv'', ''x.txt''], File ''t'')] =
       (\<lparr>status = 200, body = Text ''t''\<rparr>,
        [([''srv''], Dir), ([''srv'', ''cache''], Dir), ([''srv'', ''x.txt''], File ''t'')])
   \<and> delete_note [''srv'', ''cache''] ''../x''
        [([''srv''], Dir), ([''srv'', ''cache''], Dir), ([''srv'', ''x.txt''], File ''t'')] =
       (\<lparr>status = 200, body = Text ''Note deleted''\<rparr>,
        [([''srv''], Dir), ([''srv'', ''cache''], Dir)])"
  by (simp add: eval_defs inside_def Let_def)

text \<open>
  C10 (as amended). Create, update and delete for the name \<open>nm\<close> change no location other
  than the path of \<open>nm\<close>. Two different names without the separator \<^verbatim>\<open>/\<close> have different
  paths, so the file of the one (whether it exists, and its content) is not changed by
  an operation on the other.
\<close>

theorem frame_other_names:
  "(\<forall>q. q \<noteq> filePath cache nm \<longrightarrow>
        lookup (snd (post_write cache (Some nm) nt fs)) q = lookup fs q
      \<and> lookup (snd (put_note cache nm req_body fs)) q = lookup fs q
      \<and> lookup (snd (delete_note cache nm fs)) q = lookup fs q)
   \<and> (CHR ''/'' \<notin> set nm \<and> CHR ''/'' \<notin> set m \<and> nm \<noteq> m \<longrightarrow>
        filePath cache nm \<noteq> filePath cache m
      \<and> lookup (snd (post_write cache (Some nm) nt fs)) (filePath cache m) =
          lookup fs (filePath cache m)
      \<and> lookup (snd (put_note cache nm req_body fs)) (filePath cache m) =
          lookup fs (filePath cache m)
      \<and> lookup (snd (delete_note cache nm fs)) (filePath cache m) =
          lookup fs (filePath cache m))"
proof -
  have f: "lookup (snd (post_write cache (Some nm) nt fs)) q = lookup fs q
      \<and> lookup (snd (put_note cache nm req_body fs)) q = lookup fs q
      \<and> lookup (snd (delete_note cache nm fs)) q = lookup fs q"
    if "q \<noteq> filePath cache nm" for q
    using that post_write_frame [of q cache "Some nm" nt fs]
    by (simp add: put_note_frame delete_note_frame js_string_def)
  have d: "filePath cache nm \<noteq> filePath cache m"
    if "CHR ''/'' \<notin> set nm \<and> CHR ''/'' \<notin> set m \<and> nm \<noteq> m"
    using that by (simp add: filePath_valid)
  from f d show ?thesis by metis
qed

theorem frame_other_names_witness:
  "''foo'' \<noteq> ''m''
   \<and> CHR ''/'' \<notin> set ''foo'' \<and> CHR ''/'' \<notin> set ''m''
   \<and> lookup (snd (put_note [''cache''] ''foo'' (Some ''new'')
        [([''cache''], Dir), ([''cache'', ''m.txt''], File ''old''),
         ([''cache'', ''foo.txt''], File ''f'')])) (filePath [''cache''] ''m'') =
       Some (File ''old'')
   \<and> lookup (snd (delete_note [''cache''] ''foo''
        [([''cache''], Dir), ([''cache'', ''m.txt''], File ''old''),
         ([''cache'', ''foo.txt''], File ''f'')])) (filePath [''cache''] ''m'') =
       Some (File ''old'')"
proof -
  have h: "CHR ''/'' \<notin> set ''foo'' \<and> CHR ''/'' \<notin> set ''m'' \<and> ''foo'' \<noteq> ''m''"
    by simp
  have p: "filePath [''cache''] ''m'' = [''cache'', ''m.txt'']"
    by (simp add: filePath_def path_join_def)
  have l: "lookup [([''cache''], Dir), ([''cache'', ''m.txt''], File ''old''),
         ([''cache'', ''foo.txt''], File ''f'')] [''cache'', ''m.txt''] = Some (File ''old'')"
    by (simp add: lookup_def)
  from frame_other_names [of "[''cache'']" "''foo''" "Some ''new''"
      "[([''cache''], Dir), ([''cache'', ''m.txt''], File ''old''),
         ([''cache'', ''foo.txt''], File ''f'')]" "Some ''new''" "''m''"] h p l
  show ?thesis by simp
qed

text \<open>
  Different names with a separator may have the same path: \<^verbatim>\<open>./m\<close> and \<^verbatim>\<open>m\<close> are two names
  of one file, and an update or a delete of the first changes the note of the second.
\<close>

theorem frame_counterexample:
  "''./m'' \<noteq> ''m''
   \<and> get_note [''cache''] ''m'' [([''cache''], Dir), ([''cache'', ''m.txt''], File ''old'')] =
       (\<lparr>status = 200, body = Text ''old''\<rparr>,
        [([''cache''], Dir), ([''cache'', ''m.txt''], File ''old'')])
   \<and> put_note [''cache''] ''./m'' (Some ''new'')
        [([''cache''], Dir), ([''cache'', ''m.txt''], File ''old'')] =
       (\<lparr>status = 200, body = Text ''Note updated''\<rparr>,
        [([''cache''], Dir), ([''cache'', ''m.txt''], File ''new'')])
   \<and> get_note [''cache''] ''m'' [([''cache''], Dir), ([''cache'', ''m.txt''], File ''new'')] =
       (\<lparr>status = 200, body = Text ''new''\<rparr>,
        [([''cache''], Dir), ([''cache'', ''m.txt''], File ''new'')])
   \<and> delete_note [''cache''] ''./m''
        [([''cache''], Dir), ([''cache'', ''m.txt''], File ''old'')] =
       (\<lparr>status = 200, body = Text ''Note deleted''\<rparr>, [([''cache''], Dir)])"
  by (simp add: eval_defs)

end
